theory Spec2Isabelle
  imports Complex_Main "HOL-Library.Log_Nat"
begin

section \<open>JavaScript numbers\<close>

text \<open>
  A JavaScript \<^verbatim>\<open>number\<close> is an IEEE double. Here a finite double is the rational it
  denotes, and the arithmetic of the loop driver rounds as the machine does: \<open>double q\<close> is
  the double nearest to \<open>q\<close>, ties going to the even significand of 53 bits. The range of
  the exponent is not bounded, so overflow and subnormal numbers are left out, as are NaN
  and the infinities; the timestamps of animation frames are far from all of them.
\<close>

definition pow2 :: "int \<Rightarrow> rat" where
  "pow2 k = (if 0 \<le> k then 2 ^ nat k else 1 / 2 ^ nat (- k))"

text \<open>The binary exponent of \<open>q \<noteq> 0\<close>: the \<open>k\<close> with \<open>2 ^ k \<le> |q| < 2 ^ (k + 1)\<close>.\<close>

definition binaryExponent :: "rat \<Rightarrow> int" where
  "binaryExponent q =
     (case quotient_of \<bar>q\<bar> of
        (a, b) \<Rightarrow> (let k = bitlen a - bitlen b in if pow2 k \<le> \<bar>q\<bar> then k else k - 1))"

definition roundHalfEven :: "rat \<Rightarrow> int" where
  "roundHalfEven n =
     (let f = \<lfloor>n\<rfloor>; d = n - of_int f in
      if d < 1 / 2 then f
      else if 1 / 2 < d then f + 1
      else if even f then f else f + 1)"

definition double :: "rat \<Rightarrow> rat" where
  "double q =
     (if q = 0 then 0
      else (let ulp = pow2 (binaryExponent q - 52)
            in of_int (roundHalfEven (q / ulp)) * ulp))"

text \<open>
  \<^verbatim>\<open>a % b\<close> is the remainder of the division truncated towards zero, so it has the
  sign of \<open>a\<close>. The remainder of two doubles is a double: the operation does not round.
\<close>

definition js_trunc :: "rat \<Rightarrow> int" where
  "js_trunc q = (if 0 \<le> q then \<lfloor>q\<rfloor> else \<lceil>q\<rceil>)"

definition js_rem :: "rat \<Rightarrow> rat \<Rightarrow> rat" where
  "js_rem a b = a - b * of_int (js_trunc (a / b))"

section \<open>The timer state shared by the game and the timer hook\<close>

datatype TimerMode = Focus | Break

record TimerState =
  mode :: TimerMode
  timeRemaining :: rat
  isRunning :: bool
  breakActivity :: "string option"
  completed :: bool

section \<open>PlatformerGame.tsx: the loop driver\<close>

text \<open>
  \<^verbatim>\<open>gameState\<close> is the React state handed out by \<^verbatim>\<open>useGameEngine\<close>; the callback
  \<^verbatim>\<open>runGameLoop\<close> closes over the value of one render. The file of the hook is not
  among the files modelled here, so \<^verbatim>\<open>updateGame\<close> is a parameter: a function on the part
  \<open>world\<close> of the state, which stands for everything a simulation tick may change
  (character position and velocity, coins, score).
\<close>

record GameState =
  score :: int
  gameOver :: bool
  cameraOffsetX :: rat

text \<open>The calls of \<^verbatim>\<open>renderGame\<close> on the drawing context, in order.\<close>

datatype draw =
    ClearRect
  | DrawBackground rat
  | DrawPlatforms rat
  | DrawObstacles rat
  | DrawCollectibles rat
  | DrawCharacter
  | DrawUI GameState rat TimerMode
  | DrawGameOver int

definition renderGame :: "GameState \<Rightarrow> TimerState \<Rightarrow> draw list" where
  "renderGame gs ts =
     [ClearRect,
      DrawBackground (cameraOffsetX gs),
      DrawPlatforms (cameraOffsetX gs),
      DrawObstacles (cameraOffsetX gs),
      DrawCollectibles (cameraOffsetX gs),
      DrawCharacter,
      DrawUI gs (timeRemaining ts) (mode ts)]
     @ (if gameOver gs then [DrawGameOver (score gs)] else [])"

text \<open>What the component does to the outside, recorded in order.\<close>

datatype call =
    UpdateGame
  | RenderGame "draw list"
  | RequestFrame nat
  | CancelFrame nat
  | AudioPause
  | AudioSeek rat
  | SetGameStarted bool
  | ResetGame
  | OnStart
  | OnPause
  | OnReturn

record audio =
  paused :: bool
  currentTime :: rat

text \<open>
  The mutable state of one mounted component together with the browser's list of
  scheduled animation-frame callbacks. \<open>lastTimestamp\<close> is the \<^verbatim>\<open>let\<close> variable of the
  loop effect; \<open>scheduled\<close> holds the handles of the callbacks that the browser will still
  run; \<open>nextHandle\<close> is the browser's handle counter.
\<close>

record 'w game =
  lastTimestamp :: rat
  gameLoopRef :: "nat option"
  audioRef :: "audio option"
  audioPlaying :: bool
  world :: 'w
  scheduled :: "nat list"
  nextHandle :: nat
  calls :: "call list"

definition requestAnimationFrame :: "'w game \<Rightarrow> nat \<times> 'w game" where
  "requestAnimationFrame c =
     (nextHandle c,
      c\<lparr>scheduled := scheduled c @ [nextHandle c],
        nextHandle := nextHandle c + 1,
        calls := calls c @ [RequestFrame (nextHandle c)]\<rparr>)"

definition cancelAnimationFrame :: "nat \<Rightarrow> 'w game \<Rightarrow> 'w game" where
  "cancelAnimationFrame h c =
     c\<lparr>scheduled := removeAll h (scheduled c),
       calls := calls c @ [CancelFrame h]\<rparr>"

definition targetFPS :: rat where
  "targetFPS = 60"

definition frameInterval :: rat where
  "frameInterval = double (1000 / targetFPS)"

definition runGameLoop ::
  "('w \<Rightarrow> 'w) \<Rightarrow> GameState \<Rightarrow> TimerState \<Rightarrow> bool \<Rightarrow> rat \<Rightarrow> 'w game \<Rightarrow> 'w game" where
  "runGameLoop updateGame gs ts gameStarted timestamp c0 =
     (let c1 = (if lastTimestamp c0 = 0 then c0\<lparr>lastTimestamp := timestamp\<rparr> else c0);
          elapsed = double (timestamp - lastTimestamp c1);
          c2 = (if elapsed > frameInterval then
                  (let c3 = c1\<lparr>lastTimestamp :=
                                double (timestamp - js_rem elapsed frameInterval)\<rparr>;
                       c4 = (if \<not> gameOver gs
                             then c3\<lparr>world := updateGame (world c3),
                                     calls := calls c3 @ [UpdateGame]\<rparr>
                             else c3)
                   in c4\<lparr>calls := calls c4 @ [RenderGame (renderGame gs ts)]\<rparr>)
                else c1)
      in if gameStarted
         then (case requestAnimationFrame c2 of (h, c5) \<Rightarrow> c5\<lparr>gameLoopRef := Some h\<rparr>)
         else c2)"

text \<open>Counting the simulation ticks and the renderings in a record of calls.\<close>

fun isRender :: "call \<Rightarrow> bool" where
  "isRender (RenderGame ds) = True"
| "isRender other = False"

definition ticks :: "call list \<Rightarrow> nat" where
  "ticks cs = length (filter (\<lambda>e. e = UpdateGame) cs)"

definition renders :: "call list \<Rightarrow> nat" where
  "renders cs = length (filter isRender cs)"

text \<open>
  \<^verbatim>\<open>handleReturn\<close>: the handler of the button "Return to Timer". A reference that is
  \<^verbatim>\<open>null\<close> or \<open>0\<close> is falsy.
\<close>

definition handleReturn :: "'w game \<Rightarrow> 'w game" where
  "handleReturn c0 =
     (let c1 = (case audioRef c0 of
                  None \<Rightarrow> c0
                | Some a \<Rightarrow>
                    c0\<lparr>audioRef := Some (a\<lparr>paused := True, currentTime := 0\<rparr>),
                       audioPlaying := False,
                       calls := calls c0 @ [AudioPause, AudioSeek 0]\<rparr>);
          c2 = (case gameLoopRef c1 of
                  None \<Rightarrow> c1
                | Some h \<Rightarrow>
                    if h \<noteq> 0 then (cancelAnimationFrame h c1)\<lparr>gameLoopRef := None\<rparr> else c1)
      in c2\<lparr>calls := calls c2 @ [OnReturn]\<rparr>)"

text \<open>
  The effect that starts the loop, and its cleanup. The flags say whether the game has
  started, and whether the canvas and its 2d context exist.
\<close>

definition gameLoopEffect :: "bool \<Rightarrow> bool \<Rightarrow> bool \<Rightarrow> 'w game \<Rightarrow> 'w game" where
  "gameLoopEffect gameStarted canvas ctx c =
     (if \<not> gameStarted then c
      else if \<not> canvas then c
      else if \<not> ctx then c
      else (case requestAnimationFrame (c\<lparr>lastTimestamp := 0\<rparr>) of
              (h, c1) \<Rightarrow> c1\<lparr>gameLoopRef := Some h\<rparr>))"

definition gameLoopCleanup :: "'w game \<Rightarrow> 'w game" where
  "gameLoopCleanup c =
     (case gameLoopRef c of
        None \<Rightarrow> c
      | Some h \<Rightarrow>
          if h \<noteq> 0 then (cancelAnimationFrame h c)\<lparr>gameLoopRef := None\<rparr> else c)"

text \<open>
  The browser at a display refresh: it takes the callbacks scheduled so far, empties the
  list, and runs each of them with the timestamp of the frame.
\<close>

definition animationFrame :: "(rat \<Rightarrow> 'w game \<Rightarrow> 'w game) \<Rightarrow> rat \<Rightarrow> 'w game \<Rightarrow> 'w game" where
  "animationFrame callback timestamp c =
     fold (\<lambda>h. callback timestamp) (scheduled c) (c\<lparr>scheduled := []\<rparr>)"

text \<open>
  The state of the loop between two events: the browser's handles are positive, and a
  callback that is still scheduled is the one whose handle \<^verbatim>\<open>gameLoopRef\<close> holds.
\<close>

definition loopInv :: "'w game \<Rightarrow> bool" where
  "loopInv c =
     (0 < nextHandle c \<and>
      (case scheduled c of
         [] \<Rightarrow> True
       | [h] \<Rightarrow> h \<noteq> 0 \<and> gameLoopRef c = Some h
       | h # h' # hs \<Rightarrow> False))"

subsection \<open>The mount effect\<close>

text \<open>
  The props of one render; \<open>timerStateProp\<close> is the prop \<^verbatim>\<open>timerState\<close>. The optional
  callbacks \<^verbatim>\<open>onStart\<close> and \<^verbatim>\<open>onPause\<close> are modelled by whether they were given;
  calling them is recorded in \<open>calls\<close>.
\<close>

record props =
  timerStateProp :: TimerState
  onStartGiven :: bool
  onPauseGiven :: bool

text \<open>
  The effect \<^verbatim>\<open>useEffect(() => { ... return () => { ... } }, [])\<close>. It returns the state
  after its body and the cleanup function it hands to React. The cleanup is a closure: it
  reads the \<^verbatim>\<open>timerState\<close> and \<^verbatim>\<open>onPause\<close> of the render that created it.
\<close>

definition mountEffect :: "props \<Rightarrow> 'w game \<Rightarrow> 'w game \<times> ('w game \<Rightarrow> 'w game)" where
  "mountEffect p c =
     (c\<lparr>calls := calls c @ [SetGameStarted True, ResetGame]
                @ (if onStartGiven p \<and> \<not> isRunning (timerStateProp p) then [OnStart] else [])\<rparr>,
      \<lambda>d. if onPauseGiven p \<and> isRunning (timerStateProp p)
          then d\<lparr>calls := calls d @ [OnPause]\<rparr>
          else d)"

text \<open>
  React's handling of an effect with the empty dependency list: the effect runs after the
  first render, a later render with new props does not run it again, and unmounting runs
  the cleanup that the first render's effect returned.
\<close>

datatype 'w mounted = Mounted (current: props) (state: "'w game") (cleanup: "'w game \<Rightarrow> 'w game")

definition mount :: "props \<Rightarrow> 'w game \<Rightarrow> 'w mounted" where
  "mount p c = (case mountEffect p c of (c1, f) \<Rightarrow> Mounted p c1 f)"

definition rerender :: "props \<Rightarrow> 'w mounted \<Rightarrow> 'w mounted" where
  "rerender p m = Mounted p (state m) (cleanup m)"

definition unmount :: "'w mounted \<Rightarrow> 'w game" where
  "unmount m = cleanup m (state m)"

subsection \<open>Example states\<close>

definition idleTimer :: TimerState where
  "idleTimer = \<lparr>mode = Break, timeRemaining = 300, isRunning = False,
                 breakActivity = None, completed = False\<rparr>"

definition runningTimer :: TimerState where
  "runningTimer = idleTimer\<lparr>isRunning := True\<rparr>"

definition playing :: GameState where
  "playing = \<lparr>score = 30, gameOver = False, cameraOffsetX = 120\<rparr>"

definition lost :: GameState where
  "lost = playing\<lparr>gameOver := True\<rparr>"

text \<open>A mounted game whose world is a step counter, before the loop effect has run.\<close>

definition fresh :: "nat game" where
  "fresh = \<lparr>lastTimestamp = 0, gameLoopRef = None,
             audioRef = Some \<lparr>paused = False, currentTime = 42\<rparr>, audioPlaying = True,
             world = 0, scheduled = [], nextHandle = 1, calls = []\<rparr>"

text \<open>The same game in the middle of a run: the last tick was at 100 ms.\<close>

definition midrun :: "nat game" where
  "midrun = fresh\<lparr>lastTimestamp := 100, gameLoopRef := Some 7, scheduled := [7],
                   nextHandle := 8\<rparr>"

section \<open>The collectible renderers\<close>

text \<open>
  The fields of a \<^verbatim>\<open>Coin\<close> that the renderers read. The fields \<^verbatim>\<open>x\<close> and \<^verbatim>\<open>y\<close> are
  named \<open>xpos\<close> and \<open>ypos\<close> here. The arithmetic of the renderers on coordinates is
  taken without rounding.
\<close>

record Coin =
  xpos :: rat
  ypos :: rat
  width :: rat
  height :: rat
  collected :: bool

text \<open>An image element: its source and whether it has finished loading.\<close>

record image =
  src :: string
  complete :: bool

text \<open>
  The calls on the 2d context. Every arc of the renderers is a full circle
  (\<^verbatim>\<open>0\<close> to \<^verbatim>\<open>Math.PI * 2\<close>), so \<open>Arc\<close> keeps the centre and the radius. \<open>DrawImage\<close>
  names the image by its index in \<^verbatim>\<open>coinImages\<close>. The canvas's own refusal of a negative
  radius is not modelled.
\<close>

datatype canvas =
    SetFillStyle string
  | SetStrokeStyle string
  | SetLineWidth rat
  | SetImageSmoothingEnabled bool
  | SetImageSmoothingQuality string
  | BeginPath
  | Arc rat rat rat
  | Fill
  | Stroke
  | Clip
  | Save
  | Restore
  | DrawImage nat rat rat rat rat

subsection \<open>collectibleRenderer.ts\<close>

definition imageUrls :: "string list" where
  "imageUrls =
     [''/lovable-uploads/d5931b60-291a-4967-acb2-049519d47f35.png'',
      ''/lovable-uploads/d693ce1c-58d1-408f-a910-ba27104f2c60.png'',
      ''/lovable-uploads/fc039335-e6e1-4cc5-b0ed-fd8592e45e65.png'',
      ''/lovable-uploads/edb454cb-c8f0-4c8f-8841-bcba6bd5fa15.png'']"

text \<open>
  The module fills \<^verbatim>\<open>coinImages\<close> once, with one image per URL; \<open>loaded k\<close> says whether
  the image at index \<open>k\<close> has finished loading when the frame is drawn.
\<close>

definition coinImages :: "(nat \<Rightarrow> bool) \<Rightarrow> image list" where
  "coinImages loaded =
     map (\<lambda>(i, url). \<lparr>src = url, complete = loaded i\<rparr>) (enumerate 0 imageUrls)"

text \<open>
  The callback of \<^verbatim>\<open>coins.forEach((coin, i) => ...)\<close>. Its closing \<^verbatim>\<open>i++\<close> changes the
  callback's own parameter after the last use; \<^verbatim>\<open>forEach\<close> passes the index anew at
  every call, so the statement has no effect and is left out.
\<close>

definition eachCoin :: "image list \<Rightarrow> rat \<Rightarrow> Coin \<Rightarrow> nat \<Rightarrow> canvas list" where
  "eachCoin images cameraOffset coin i =
     (if \<not> collected coin then
        (let adjustedX = xpos coin - cameraOffset in
         if adjustedX < 700 \<and> adjustedX + width coin > - 20 then
           (let scaleFactor = 3 / 2;
                centerX = adjustedX + width coin / 2;
                centerY = ypos coin + height coin / 2;
                renderWidth = width coin * scaleFactor;
                renderHeight = height coin * scaleFactor;
                imageIndex = i mod length images
            in [SetFillStyle ''#FFD746'', BeginPath, Arc centerX centerY (renderWidth / 2), Fill,
                Save, SetImageSmoothingEnabled True, SetImageSmoothingQuality ''high'',
                BeginPath, Arc centerX centerY (renderWidth / 2 - 1), Clip]
               @ (if imageIndex < length images \<and> complete (images ! imageIndex)
                  then [DrawImage imageIndex (centerX - renderWidth / 2)
                          (centerY - renderHeight / 2) renderWidth renderHeight]
                  else [])
               @ [Restore, SetStrokeStyle ''#FFD746'', SetLineWidth 2, BeginPath,
                  Arc centerX centerY (renderWidth / 2), Stroke])
         else [])
      else [])"

definition drawCollectibles :: "image list \<Rightarrow> Coin list \<Rightarrow> rat \<Rightarrow> canvas list" where
  "drawCollectibles images coins cameraOffset =
     concat (map (\<lambda>(i, coin). eachCoin images cameraOffset coin i) (enumerate 0 coins))"

subsection \<open>The second renderer (coin images under /assets)\<close>

text \<open>
  This module builds its four images in a loop \<^verbatim>\<open>for (let i = 1; i <= 4; i++)\<close>, from
  the path \<^verbatim>\<open>/assets/coin-${i}.png\<close> passed through \<^verbatim>\<open>getExtensionURL\<close>, which is a
  parameter here.
\<close>

definition coinImages_assets :: "(string \<Rightarrow> string) \<Rightarrow> (nat \<Rightarrow> bool) \<Rightarrow> image list" where
  "coinImages_assets getExtensionURL loaded =
     map (\<lambda>i. \<lparr>src = getExtensionURL (''/assets/coin-'' @ [char_of (48 + i)] @ ''.png''),
               complete = loaded (i - 1)\<rparr>) [1..<5]"

text \<open>The callback of this module does not ask whether the image is complete.\<close>

definition eachCoin_assets :: "image list \<Rightarrow> rat \<Rightarrow> Coin \<Rightarrow> nat \<Rightarrow> canvas list" where
  "eachCoin_assets images cameraOffset coin i =
     (if \<not> collected coin then
        (let adjustedX = xpos coin - cameraOffset in
         if adjustedX < 700 \<and> adjustedX + width coin > - 20 then
           (let scaleFactor = 3 / 2;
                centerX = adjustedX + width coin / 2;
                centerY = ypos coin + height coin / 2;
                renderWidth = width coin * scaleFactor;
                renderHeight = height coin * scaleFactor
            in [SetFillStyle ''#FFD746'', BeginPath, Arc centerX centerY (renderWidth / 2), Fill,
                Save, BeginPath, Arc centerX centerY (renderWidth / 2 - 1), Clip]
               @ (let imageIndex = i mod length images in
                  if imageIndex < length images
                  then [DrawImage imageIndex (centerX - renderWidth / 2)
                          (centerY - renderHeight / 2) renderWidth renderHeight]
                  else [])
               @ [Restore, SetStrokeStyle ''#FFD746'', SetLineWidth 2, BeginPath,
                  Arc centerX centerY (renderWidth / 2), Stroke])
         else [])
      else [])"

definition drawCollectibles_assets :: "image list \<Rightarrow> Coin list \<Rightarrow> rat \<Rightarrow> canvas list" where
  "drawCollectibles_assets images coins cameraOffset =
     concat (map (\<lambda>(i, coin). eachCoin_assets images cameraOffset coin i) (enumerate 0 coins))"

subsection \<open>Reading a record of canvas calls\<close>

text \<open>The indices of the images drawn, in order.\<close>

fun imagesDrawn :: "canvas list \<Rightarrow> nat list" where
  "imagesDrawn [] = []"
| "imagesDrawn (DrawImage k a b w h # cs) = k # imagesDrawn cs"
| "imagesDrawn (other # cs) = imagesDrawn cs"

text \<open>
  Stated from the words of the specification, for comparison with the renderers' own
  test: the horizontal extent \<open>[x, x + width]\<close> of a coin, shifted by the camera, meets
  the viewport \<open>(0, 700)\<close> (the canvas is 700 wide) widened by \<open>left\<close> on its left side
  and by \<open>right\<close> on its right side. A fixed margin \<open>m\<close> on each side is
  \<open>meetsViewport m m\<close>.
\<close>

definition meetsViewport :: "rat \<Rightarrow> rat \<Rightarrow> rat \<Rightarrow> Coin \<Rightarrow> bool" where
  "meetsViewport left right cameraOffset coin =
     (xpos coin - cameraOffset < 700 + right \<and> xpos coin - cameraOffset + width coin > - left)"

subsection \<open>Example coins\<close>

definition coin0 :: Coin where
  "coin0 = \<lparr>xpos = 300, ypos = 200, width = 20, height = 20, collected = False\<rparr>"

definition allLoaded :: "nat \<Rightarrow> bool" where
  "allLoaded k = True"

definition edgeCoin :: Coin where
  "edgeCoin = coin0\<lparr>xpos := 705, width := 10\<rparr>"

definition row :: "Coin list" where
  "row = [coin0, coin0\<lparr>xpos := 340\<rparr>, coin0\<lparr>xpos := 380, collected := True\<rparr>,
          coin0\<lparr>xpos := 420\<rparr>, coin0\<lparr>xpos := 460\<rparr>, coin0\<lparr>xpos := 900\<rparr>]"

section \<open>useTimer.tsx: the timer hook\<close>

text \<open>
  The fields of \<^verbatim>\<open>TimerSettings\<close> that the hook reads, in minutes. \<^verbatim>\<open>minutesToSeconds\<close>
  comes from a module that is not among the files modelled here; the functions below take it
  as their first argument.
\<close>

record TimerSettings =
  focusDuration :: rat
  breakDuration :: rat

datatype effect = Toast string | PlayAudio string

text \<open>
  The numbers of the hook are counts of seconds and of milliseconds; their arithmetic is
  taken without rounding.

  The state of the hook: the React state \<open>timerState\<close>, the refs, and the three keys of
  the extension's local storage that the hook uses. \<^verbatim>\<open>saveToLocalStorage\<close> writes only in
  an extension context; the writes are queued in the source and happen in order, here at
  once. An interval is running exactly when \<open>intervalRef\<close> holds its (positive) id.
\<close>

record timerHook =
  timerState :: TimerState
  settingsRef :: TimerSettings
  intervalRef :: "nat option"
  nextIntervalId :: nat
  lastUpdateRef :: rat
  extensionContext :: bool
  storedTimerState :: "TimerState option"
  storedLastUpdate :: "rat option"
  storedSettings :: "TimerSettings option"
  effects :: "effect list"

definition saveTimerState :: "TimerState \<Rightarrow> timerHook \<Rightarrow> timerHook" where
  "saveTimerState v h = (if extensionContext h then h\<lparr>storedTimerState := Some v\<rparr> else h)"

definition saveLastUpdate :: "rat \<Rightarrow> timerHook \<Rightarrow> timerHook" where
  "saveLastUpdate now h = (if extensionContext h then h\<lparr>storedLastUpdate := Some now\<rparr> else h)"

text \<open>\<^verbatim>\<open>if (intervalRef.current) { clearInterval(intervalRef.current); intervalRef.current = null; }\<close>\<close>

definition clearIntervalRef :: "timerHook \<Rightarrow> timerHook" where
  "clearIntervalRef h =
     (case intervalRef h of
        None \<Rightarrow> h
      | Some i \<Rightarrow> if i \<noteq> 0 then h\<lparr>intervalRef := None\<rparr> else h)"

definition startTimerInterval :: "timerHook \<Rightarrow> timerHook" where
  "startTimerInterval h =
     h\<lparr>intervalRef := Some (nextIntervalId h), nextIntervalId := nextIntervalId h + 1\<rparr>"

definition handleTimerCompletion ::
  "(rat \<Rightarrow> rat) \<Rightarrow> TimerMode \<Rightarrow> rat \<Rightarrow> timerHook \<Rightarrow> TimerState \<times> timerHook" where
  "handleTimerCompletion minutesToSeconds currentMode now h =
     (let h1 = clearIntervalRef h;
          nextMode = (if currentMode = Focus then Break else Focus);
          nextDuration = (if nextMode = Focus
                          then minutesToSeconds (focusDuration (settingsRef h1))
                          else minutesToSeconds (breakDuration (settingsRef h1)));
          h2 = (if currentMode = Focus
                then h1\<lparr>effects := effects h1 @ [PlayAudio ''break_start'',
                           Toast ''Focus session complete! Time for a break.'']\<rparr>
                else h1\<lparr>effects := effects h1 @ [PlayAudio ''focus_start'',
                           Toast ''Break complete! Ready to focus again?'']\<rparr>);
          newState = \<lparr>mode = nextMode, timeRemaining = nextDuration, isRunning = False,
                      breakActivity = None, completed = True\<rparr>
      in (newState, saveLastUpdate now (saveTimerState newState h2)))"

text \<open>The callback of the interval: \<^verbatim>\<open>setTimerState((prev) => ...)\<close>.\<close>

definition intervalCallback :: "(rat \<Rightarrow> rat) \<Rightarrow> rat \<Rightarrow> timerHook \<Rightarrow> timerHook" where
  "intervalCallback minutesToSeconds now h =
     (let prev = timerState h in
      if timeRemaining prev \<le> 1
      then (case handleTimerCompletion minutesToSeconds (mode prev) now h of
              (s, h') \<Rightarrow> h'\<lparr>timerState := s\<rparr>)
      else (let newState = prev\<lparr>timeRemaining := timeRemaining prev - 1, completed := False\<rparr>
            in (saveLastUpdate now (saveTimerState newState h))\<lparr>timerState := newState\<rparr>))"

definition resetTimer :: "(rat \<Rightarrow> rat) \<Rightarrow> TimerMode \<Rightarrow> timerHook \<Rightarrow> timerHook" where
  "resetTimer minutesToSeconds m h =
     (let h1 = clearIntervalRef h;
          newState = \<lparr>mode = m,
                      timeRemaining = (if m = Focus
                                       then minutesToSeconds (focusDuration (settingsRef h1))
                                       else minutesToSeconds (breakDuration (settingsRef h1))),
                      isRunning = False, breakActivity = None, completed = False\<rparr>
      in h1\<lparr>timerState := newState\<rparr>)"

text \<open>
  \<^verbatim>\<open>startTimer\<close>, \<^verbatim>\<open>pauseTimer\<close>, \<^verbatim>\<open>selectBreakActivity\<close> and the two update functions
  are made anew by every render (\<^verbatim>\<open>useCallback\<close> with \<^verbatim>\<open>timerState\<close>, or fields of it,
  among the dependencies). Where the source reads \<^verbatim>\<open>timerState\<close>, a callback reads the
  state of the render that made it: the argument \<open>captured\<close>. Where the source uses the
  updater form \<^verbatim>\<open>setTimerState((prev) => ...)\<close>, it reads the state of the hook at the
  time of the call. A callback of the latest render has \<open>captured = timerState h\<close>; a
  callback kept from an earlier render (in a timeout, or in the closure of an effect) has
  an earlier state.
\<close>

definition startTimer :: "(rat \<Rightarrow> rat) \<Rightarrow> rat \<Rightarrow> TimerState \<Rightarrow> timerHook \<Rightarrow> timerHook" where
  "startTimer minutesToSeconds now captured h =
     (if isRunning captured then h
      else if timeRemaining captured \<le> 0
      then resetTimer minutesToSeconds (mode captured) h
      else (let newState = captured\<lparr>isRunning := True, completed := False\<rparr>;
                h1 = h\<lparr>timerState := newState\<rparr>
            in startTimerInterval (saveLastUpdate now (saveTimerState newState h1))))"

definition pauseTimer :: "TimerState \<Rightarrow> timerHook \<Rightarrow> timerHook" where
  "pauseTimer captured h =
     (if \<not> isRunning captured then h
      else (let h1 = clearIntervalRef h
            in h1\<lparr>timerState := (timerState h1)\<lparr>isRunning := False\<rparr>\<rparr>))"

text \<open>
  \<^verbatim>\<open>selectBreakActivity\<close> sets the activity and, when the activity is truthy and the
  captured state is not running, schedules \<^verbatim>\<open>setTimeout(() => startTimer(), 100)\<close> with
  the \<^verbatim>\<open>startTimer\<close> of its own render. The second component of the result is the state
  that the scheduled \<^verbatim>\<open>startTimer\<close> has captured, if one was scheduled. An activity is
  \<^verbatim>\<open>null\<close> (\<open>None\<close>) or a string; \<^verbatim>\<open>null\<close> and the empty string are falsy.
\<close>

definition selectBreakActivity ::
  "string option \<Rightarrow> TimerState \<Rightarrow> timerHook \<Rightarrow> timerHook \<times> TimerState option" where
  "selectBreakActivity activity captured h =
     (h\<lparr>timerState := (timerState h)\<lparr>breakActivity := activity\<rparr>\<rparr>,
      (case activity of
         None \<Rightarrow> None
       | Some a \<Rightarrow> if a \<noteq> [] \<and> \<not> isRunning captured then Some captured else None))"

definition updateFocusDuration ::
  "(rat \<Rightarrow> rat) \<Rightarrow> rat \<Rightarrow> TimerState \<Rightarrow> timerHook \<Rightarrow> timerHook" where
  "updateFocusDuration minutesToSeconds minutes captured h =
     (if \<not> isRunning captured \<and> mode captured = Focus
      then h\<lparr>timerState := (timerState h)\<lparr>timeRemaining := minutesToSeconds minutes\<rparr>\<rparr>
      else h)"

definition updateBreakDuration ::
  "(rat \<Rightarrow> rat) \<Rightarrow> rat \<Rightarrow> TimerState \<Rightarrow> timerHook \<Rightarrow> timerHook" where
  "updateBreakDuration minutesToSeconds minutes captured h =
     (if \<not> isRunning captured \<and> mode captured = Break
      then h\<lparr>timerState := (timerState h)\<lparr>timeRemaining := minutesToSeconds minutes\<rparr>\<rparr>
      else h)"

text \<open>
  \<^verbatim>\<open>loadStoredTimerState\<close>, with \<^verbatim>\<open>Date.now()\<close> as the argument \<open>now\<close>. A stored last
  update of \<open>0\<close> is falsy. The value that \<^verbatim>\<open>handleTimerCompletion\<close> returns is dropped
  here, as in the source.
\<close>

definition loadStoredTimerState :: "(rat \<Rightarrow> rat) \<Rightarrow> rat \<Rightarrow> timerHook \<Rightarrow> timerHook" where
  "loadStoredTimerState minutesToSeconds now h =
     (if \<not> extensionContext h then h
      else
        (let h1 = (case storedSettings h of None \<Rightarrow> h | Some s \<Rightarrow> h\<lparr>settingsRef := s\<rparr>) in
         case storedTimerState h1 of
           None \<Rightarrow> h1
         | Some storedState \<Rightarrow>
             (case storedLastUpdate h1 of
                None \<Rightarrow> h1
              | Some lastUpdate \<Rightarrow>
                  if lastUpdate = 0 then h1
                  else
                    (let elapsedSeconds = of_int \<lfloor>(now - lastUpdate) / 1000\<rfloor>;
                         h2 =
                           (if isRunning storedState then
                              (let st = storedState\<lparr>timeRemaining :=
                                          max 0 (timeRemaining storedState - elapsedSeconds)\<rparr>
                               in if timeRemaining st \<le> 0
                                  then snd (handleTimerCompletion minutesToSeconds (mode st) now h1)
                                  else (let h3 = h1\<lparr>timerState := st\<rparr>
                                        in case intervalRef h3 of
                                             None \<Rightarrow> startTimerInterval h3
                                           | Some i \<Rightarrow>
                                               if i = 0 then startTimerInterval h3 else h3))
                            else h1\<lparr>timerState := storedState\<rparr>)
                     in h2\<lparr>lastUpdateRef := now\<rparr>))))"

text \<open>
  What can happen to a mounted hook, and the hook's reaction. The interval's callback
  runs only while an interval is set. The calls of the hook's functions are calls of the
  latest render's callbacks.
\<close>

datatype timerEvent =
    IntervalFires rat
  | ResetTimer TimerMode
  | StartTimer rat
  | PauseTimer
  | LoadStored rat
  | SettingsChanged TimerSettings
  | UpdateFocusDuration rat
  | UpdateBreakDuration rat

fun timerStep :: "(rat \<Rightarrow> rat) \<Rightarrow> timerEvent \<Rightarrow> timerHook \<Rightarrow> timerHook" where
  "timerStep m2s (IntervalFires now) h =
     (case intervalRef h of None \<Rightarrow> h | Some i \<Rightarrow> intervalCallback m2s now h)"
| "timerStep m2s (ResetTimer m) h = resetTimer m2s m h"
| "timerStep m2s (StartTimer now) h = startTimer m2s now (timerState h) h"
| "timerStep m2s PauseTimer h = pauseTimer (timerState h) h"
| "timerStep m2s (LoadStored now) h = loadStoredTimerState m2s now h"
| "timerStep m2s (SettingsChanged s) h = h\<lparr>settingsRef := s\<rparr>"
| "timerStep m2s (UpdateFocusDuration minutes) h =
     updateFocusDuration m2s minutes (timerState h) h"
| "timerStep m2s (UpdateBreakDuration minutes) h =
     updateBreakDuration m2s minutes (timerState h) h"

text \<open>The durations an event brings in are not negative.\<close>

fun eventDurationsOk :: "timerEvent \<Rightarrow> bool" where
  "eventDurationsOk (SettingsChanged s) = (0 \<le> focusDuration s \<and> 0 \<le> breakDuration s)"
| "eventDurationsOk (UpdateFocusDuration minutes) = (0 \<le> minutes)"
| "eventDurationsOk (UpdateBreakDuration minutes) = (0 \<le> minutes)"
| "eventDurationsOk other = True"

definition settingsOk :: "TimerSettings \<Rightarrow> bool" where
  "settingsOk s = (0 \<le> focusDuration s \<and> 0 \<le> breakDuration s)"

text \<open>
  The invariant: the remaining time is not negative, neither in the hook nor in the
  stored copy, and the configured durations, current and stored, are not negative.
\<close>

definition timerInv :: "timerHook \<Rightarrow> bool" where
  "timerInv h =
     (0 \<le> timeRemaining (timerState h)
      \<and> settingsOk (settingsRef h)
      \<and> (case storedTimerState h of None \<Rightarrow> True | Some s \<Rightarrow> 0 \<le> timeRemaining s)
      \<and> (case storedSettings h of None \<Rightarrow> True | Some s \<Rightarrow> settingsOk s))"

text \<open>The hook as \<^verbatim>\<open>useTimer({ settings })\<close> creates it, over a given storage.\<close>

definition initialHook ::
  "(rat \<Rightarrow> rat) \<Rightarrow> TimerSettings \<Rightarrow> bool \<Rightarrow> TimerState option \<Rightarrow> rat option
     \<Rightarrow> TimerSettings option \<Rightarrow> rat \<Rightarrow> timerHook" where
  "initialHook minutesToSeconds settings ext st lu ss now =
     \<lparr>timerState = \<lparr>mode = Focus, timeRemaining = minutesToSeconds (focusDuration settings),
                     isRunning = False, breakActivity = None, completed = False\<rparr>,
      settingsRef = settings, intervalRef = None, nextIntervalId = 1, lastUpdateRef = now,
      extensionContext = ext, storedTimerState = st, storedLastUpdate = lu,
      storedSettings = ss, effects = []\<rparr>"

subsection \<open>Example hooks\<close>

definition times60 :: "rat \<Rightarrow> rat" where
  "times60 minutes = minutes * 60"

definition pomodoro :: TimerSettings where
  "pomodoro = \<lparr>focusDuration = 25, breakDuration = 5\<rparr>"

definition hook0 :: timerHook where
  "hook0 = initialHook times60 pomodoro True None None None 1000"

definition sampleEvents :: "timerEvent list" where
  "sampleEvents = [StartTimer 2000, IntervalFires 3000, IntervalFires 4000, PauseTimer,
        LoadStored 9000, StartTimer 9500, LoadStored 12700, UpdateFocusDuration 10]"

text \<open>
  The break screen of the page: the break timer is idle and no activity is chosen. Then
  the user chooses the game; the page mounts the game, whose mount effect calls
  \<^verbatim>\<open>onStart\<close>, the \<^verbatim>\<open>startTimer\<close> of the latest render.
\<close>

definition breakIdle :: timerHook where
  "breakIdle = hook0\<lparr>timerState := idleTimer\<rparr>"

definition gameChosen :: timerHook where
  "gameChosen = fst (selectBreakActivity (Some ''game'') (timerState breakIdle) breakIdle)"

definition gameRunning :: timerHook where
  "gameRunning = startTimer times60 2000 (timerState gameChosen) gameChosen"

section \<open>BreakDurationDialog.tsx\<close>

subsection \<open>parseInt\<close>

text \<open>
  \<^verbatim>\<open>parseInt(text)\<close> without a radix, on a string of ASCII characters: leading white
  space is skipped, then an optional sign, then the prefix \<^verbatim>\<open>0x\<close> or \<^verbatim>\<open>0X\<close> (which
  makes the radix 16), then the longest run of digits of the radix. No digit gives NaN,
  here \<open>None\<close>. The result is the exact integer; JavaScript rounds it to a double, which
  changes it only above \<open>2 ^ 53\<close>.
\<close>

definition isWhiteSpace :: "char \<Rightarrow> bool" where
  "isWhiteSpace c = (of_char c \<in> {9, 10, 11, 12, 13, 32 :: nat})"

definition digitValue :: "char \<Rightarrow> nat option" where
  "digitValue c =
     (let n = (of_char c :: nat) in
      if 48 \<le> n \<and> n \<le> 57 then Some (n - 48)
      else if 97 \<le> n \<and> n \<le> 122 then Some (n - 87)
      else if 65 \<le> n \<and> n \<le> 90 then Some (n - 55)
      else None)"

definition isDigitOf :: "nat \<Rightarrow> char \<Rightarrow> bool" where
  "isDigitOf radix c = (case digitValue c of None \<Rightarrow> False | Some v \<Rightarrow> v < radix)"

definition digitsValue :: "nat \<Rightarrow> string \<Rightarrow> nat" where
  "digitsValue radix z =
     foldl (\<lambda>acc c. case digitValue c of None \<Rightarrow> acc | Some v \<Rightarrow> acc * radix + v) 0 z"

definition parseInt :: "string \<Rightarrow> int option" where
  "parseInt text =
     (let s = dropWhile isWhiteSpace text;
          (sign, s1) = (case s of
                          [] \<Rightarrow> (1, s)
                        | c # r \<Rightarrow> if c = CHR ''-'' then (- 1, r)
                                   else if c = CHR ''+'' then (1, r)
                                   else (1, s));
          (radix, s2) = (case s1 of
                           a # b # r \<Rightarrow> if a = CHR ''0'' \<and> (b = CHR ''x'' \<or> b = CHR ''X'')
                                        then (16, r) else (10, s1)
                         | _ \<Rightarrow> (10, s1));
          z = takeWhile (isDigitOf radix) s2
      in if z = [] then None else Some (sign * int (digitsValue radix z)))"

subsection \<open>The dialog\<close>

text \<open>What the dialog does to the outside: the callback of the parent, and the toasts.\<close>

datatype dialogCall =
    OnChangeBreakDuration rat
  | ToastError string
  | ToastSuccess rat

text \<open>
  The state of the component: its three state variables, the current value of the prop
  \<^verbatim>\<open>breakDuration\<close>, and the record of its calls. The durations are numbers of minutes;
  their arithmetic (plus and minus one, the comparisons, the clamp) is taken without
  rounding. \<^verbatim>\<open>Number.prototype.toString\<close> is the
  argument \<open>toStr\<close> of the functions that use it; what it returns is only ever shown in
  the input field and handed back to \<^verbatim>\<open>parseInt\<close>.
\<close>

record dialog =
  tempDuration :: rat
  inputValue :: string
  isOpen :: bool
  breakDurationProp :: rat
  out :: "dialogCall list"

definition initialDialog :: "(rat \<Rightarrow> string) \<Rightarrow> rat \<Rightarrow> dialog" where
  "initialDialog toStr b =
     \<lparr>tempDuration = b, inputValue = toStr b, isOpen = False, breakDurationProp = b, out = []\<rparr>"

text \<open>The effect with the dependency \<^verbatim>\<open>[breakDuration]\<close>: it runs when the prop changes.\<close>

definition propChanged :: "(rat \<Rightarrow> string) \<Rightarrow> rat \<Rightarrow> dialog \<Rightarrow> dialog" where
  "propChanged toStr b d =
     (if b = breakDurationProp d then d
      else d\<lparr>breakDurationProp := b, tempDuration := b, inputValue := toStr b\<rparr>)"

definition decreaseDuration :: "(rat \<Rightarrow> string) \<Rightarrow> dialog \<Rightarrow> dialog" where
  "decreaseDuration toStr d =
     (if tempDuration d > 1
      then (let newValue = tempDuration d - 1
            in d\<lparr>tempDuration := newValue, inputValue := toStr newValue\<rparr>)
      else d)"

definition increaseDuration :: "(rat \<Rightarrow> string) \<Rightarrow> dialog \<Rightarrow> dialog" where
  "increaseDuration toStr d =
     (if tempDuration d < 15
      then (let newValue = tempDuration d + 1
            in d\<lparr>tempDuration := newValue, inputValue := toStr newValue\<rparr>)
      else d)"

definition handleInputChange :: "string \<Rightarrow> dialog \<Rightarrow> dialog" where
  "handleInputChange text d =
     (let d1 = d\<lparr>inputValue := text\<rparr> in
      case parseInt text of
        None \<Rightarrow> d1
      | Some parsedValue \<Rightarrow>
          if parsedValue \<ge> 1 \<and> parsedValue \<le> 15
          then d1\<lparr>tempDuration := of_int parsedValue\<rparr>
          else d1)"

definition handleInputBlur :: "(rat \<Rightarrow> string) \<Rightarrow> dialog \<Rightarrow> dialog" where
  "handleInputBlur toStr d =
     (let invalid = d\<lparr>inputValue := toStr (tempDuration d),
                      out := out d @ [ToastError ''Please enter a number between 1 and 15 minutes'']\<rparr>
      in case parseInt (inputValue d) of
           None \<Rightarrow> invalid
         | Some newValue \<Rightarrow>
             if newValue \<ge> 1 \<and> newValue \<le> 15
             then d\<lparr>tempDuration := of_int newValue\<rparr>
             else invalid)"

text \<open>Enter takes the focus from the field, which runs the blur handler.\<close>

definition handleKeyDown :: "(rat \<Rightarrow> string) \<Rightarrow> string \<Rightarrow> dialog \<Rightarrow> dialog" where
  "handleKeyDown toStr key d = (if key = ''Enter'' then handleInputBlur toStr d else d)"

definition handleSave :: "dialog \<Rightarrow> dialog" where
  "handleSave d =
     (let valueToSave = min (max 1 (tempDuration d)) 15
      in d\<lparr>isOpen := False,
           out := out d @ [OnChangeBreakDuration valueToSave, ToastSuccess valueToSave]\<rparr>)"

definition handleCancel :: "(rat \<Rightarrow> string) \<Rightarrow> dialog \<Rightarrow> dialog" where
  "handleCancel toStr d =
     d\<lparr>tempDuration := breakDurationProp d,
       inputValue := toStr (breakDurationProp d),
       isOpen := False\<rparr>"

definition handleOpenChange :: "(rat \<Rightarrow> string) \<Rightarrow> bool \<Rightarrow> dialog \<Rightarrow> dialog" where
  "handleOpenChange toStr opened d =
     (let d1 = d\<lparr>isOpen := opened\<rparr> in
      if opened
      then d1\<lparr>tempDuration := breakDurationProp d1, inputValue := toStr (breakDurationProp d1)\<rparr>
      else d1)"

text \<open>The interactions of the user, and a change of the prop by the parent.\<close>

datatype dialogEvent =
    Typed string
  | Blur
  | KeyDown string
  | Decrease
  | Increase
  | Save
  | Cancel
  | OpenChange bool
  | PropChanged rat

fun dialogStep :: "(rat \<Rightarrow> string) \<Rightarrow> dialogEvent \<Rightarrow> dialog \<Rightarrow> dialog" where
  "dialogStep toStr (Typed text) d = handleInputChange text d"
| "dialogStep toStr Blur d = handleInputBlur toStr d"
| "dialogStep toStr (KeyDown key) d = handleKeyDown toStr key d"
| "dialogStep toStr Decrease d = decreaseDuration toStr d"
| "dialogStep toStr Increase d = increaseDuration toStr d"
| "dialogStep toStr Save d = handleSave d"
| "dialogStep toStr Cancel d = handleCancel toStr d"
| "dialogStep toStr (OpenChange opened) d = handleOpenChange toStr opened d"
| "dialogStep toStr (PropChanged b) d = propChanged toStr b d"

definition isInteger :: "rat \<Rightarrow> bool" where
  "isInteger q = (of_int \<lfloor>q\<rfloor> = q)"

fun propIsInteger :: "dialogEvent \<Rightarrow> bool" where
  "propIsInteger (PropChanged b) = isInteger b"
| "propIsInteger other = True"

text \<open>The values handed to \<^verbatim>\<open>onChangeBreakDuration\<close>, in order.\<close>

fun saved :: "dialogCall list \<Rightarrow> rat list" where
  "saved [] = []"
| "saved (OnChangeBreakDuration v # cs) = v # saved cs"
| "saved (other # cs) = saved cs"

text \<open>Two invariants of the dialog: on the values saved so far, and on integrality.\<close>

definition rangeInv :: "dialog \<Rightarrow> bool" where
  "rangeInv d = (\<forall>v\<in>set (saved (out d)). 1 \<le> v \<and> v \<le> 15)"

definition intInv :: "dialog \<Rightarrow> bool" where
  "intInv d =
     (isInteger (tempDuration d) \<and> isInteger (breakDurationProp d)
      \<and> (\<forall>v\<in>set (saved (out d)). isInteger v))"

subsection \<open>An example session\<close>

text \<open>A rendering of whole numbers for the examples: the decimal digits, with a sign.\<close>

fun digitsOf :: "nat \<Rightarrow> nat \<Rightarrow> string" where
  "digitsOf 0 n = []"
| "digitsOf (Suc fuel) n =
     (if n < 10 then [char_of (48 + n)]
      else digitsOf fuel (n div 10) @ [char_of (48 + n mod 10)])"

definition wholeToString :: "rat \<Rightarrow> string" where
  "wholeToString q =
     (if q < 0 then CHR ''-'' # digitsOf 30 (nat (- \<lfloor>q\<rfloor>)) else digitsOf 30 (nat \<lfloor>q\<rfloor>))"

definition session :: "dialogEvent list" where
  "session = [OpenChange True, Typed ''99'', Save, Typed ''7 min'', Save, Typed ''0x1F'', Blur,
              Typed ''abc'', Blur, Decrease, Save, PropChanged 40, Increase, Save]"

section \<open>Properties of the loop driver\<close>

lemma frameInterval_value: "frameInterval = 4691249611844267 / 281474976710656"
  by code_simp

lemma frameInterval_pos: "0 < frameInterval"
  by (simp add: frameInterval_value)

lemma double_0: "double 0 = 0"
  by (simp add: double_def)

lemma ticks_append: "ticks (xs @ ys) = ticks xs + ticks ys"
  by (simp add: ticks_def)

lemma renders_append: "renders (xs @ ys) = renders xs + renders ys"
  by (simp add: renders_def)

lemma runGameLoop_lastTimestamp:
  "lastTimestamp (runGameLoop u gs ts st t c) =
     (if lastTimestamp c \<noteq> 0 \<and> frameInterval < double (t - lastTimestamp c)
      then double (t - js_rem (double (t - lastTimestamp c)) frameInterval)
      else if lastTimestamp c = 0 then t else lastTimestamp c)"
  using frameInterval_pos
  by (simp add: runGameLoop_def Let_def requestAnimationFrame_def double_0 split: prod.splits)

lemma runGameLoop_calls:
  "calls (runGameLoop u gs ts st t c) =
     calls c
     @ (if lastTimestamp c \<noteq> 0 \<and> frameInterval < double (t - lastTimestamp c)
        then (if gameOver gs then [] else [UpdateGame]) @ [RenderGame (renderGame gs ts)]
        else [])
     @ (if st then [RequestFrame (nextHandle c)] else [])"
  using frameInterval_pos
  by (simp add: runGameLoop_def Let_def requestAnimationFrame_def double_0 split: prod.splits)

lemma runGameLoop_world:
  "world (runGameLoop u gs ts st t c) =
     (if lastTimestamp c \<noteq> 0 \<and> frameInterval < double (t - lastTimestamp c) \<and> \<not> gameOver gs
      then u (world c) else world c)"
  using frameInterval_pos
  by (simp add: runGameLoop_def Let_def requestAnimationFrame_def double_0 split: prod.splits)

lemma runGameLoop_ticks:
  "ticks (calls (runGameLoop u gs ts st t c)) =
     ticks (calls c)
     + (if lastTimestamp c \<noteq> 0 \<and> frameInterval < double (t - lastTimestamp c) \<and> \<not> gameOver gs
        then 1 else 0)"
  by (simp add: runGameLoop_calls ticks_append) (simp add: ticks_def)

lemma runGameLoop_renders:
  "renders (calls (runGameLoop u gs ts st t c)) =
     renders (calls c)
     + (if lastTimestamp c \<noteq> 0 \<and> frameInterval < double (t - lastTimestamp c) then 1 else 0)"
  by (simp add: runGameLoop_calls renders_append) (simp add: renders_def)

lemma js_rem_bounds:
  assumes "0 < b" "0 \<le> a"
  shows "0 \<le> js_rem a b \<and> js_rem a b < b"
proof -
  have q: "0 \<le> a / b" using assms by simp
  have ab: "b * (a / b) = a" using assms(1) by simp
  have "b * of_int \<lfloor>a / b\<rfloor> \<le> b * (a / b)"
    using assms(1) by (intro mult_left_mono) simp_all
  then have 1: "b * of_int \<lfloor>a / b\<rfloor> \<le> a" using ab by simp
  have "a / b < of_int \<lfloor>a / b\<rfloor> + 1" by linarith
  then have "b * (a / b) < b * (of_int \<lfloor>a / b\<rfloor> + 1)"
    using assms(1) by (intro mult_strict_left_mono) simp_all
  then have 2: "a < b * of_int \<lfloor>a / b\<rfloor> + b" using ab by (simp add: algebra_simps)
  show ?thesis using q 1 2 by (simp add: js_rem_def js_trunc_def)
qed

lemma quiet_frames:
  "lastTimestamp c \<noteq> 0 \<Longrightarrow> \<forall>x\<in>set xs. double (x - lastTimestamp c) \<le> frameInterval \<Longrightarrow>
   ticks (calls (fold (runGameLoop u gs ts st) xs c)) = ticks (calls c)
   \<and> renders (calls (fold (runGameLoop u gs ts st) xs c)) = renders (calls c)
   \<and> lastTimestamp (fold (runGameLoop u gs ts st) xs c) = lastTimestamp c
   \<and> world (fold (runGameLoop u gs ts st) xs c) = world c"
proof (induction xs arbitrary: c)
  case Nil
  then show ?case by simp
next
  case (Cons x xs)
  let ?c = "runGameLoop u gs ts st x c"
  from Cons.prems have nofire: "\<not> frameInterval < double (x - lastTimestamp c)" by simp
  have l: "lastTimestamp ?c = lastTimestamp c"
    using Cons.prems(1) nofire by (simp add: runGameLoop_lastTimestamp)
  have "\<forall>y\<in>set xs. double (y - lastTimestamp ?c) \<le> frameInterval"
    using Cons.prems(2) l by simp
  from Cons.IH[of ?c, OF _ this] l Cons.prems(1)
  show ?case using nofire
    by (simp add: runGameLoop_ticks runGameLoop_renders runGameLoop_world)
qed


text \<open>
  Claim C1. One invocation of \<^verbatim>\<open>runGameLoop\<close> with timestamp \<open>t\<close> runs at most one
  simulation tick. It runs one exactly when the stored timestamp is set, the time elapsed
  since it (the rounded difference, as the code computes it) exceeds the frame interval,
  the double \<^verbatim>\<open>1000 / 60\<close>, and the game is not over. When a tick runs, the stored
  timestamp becomes \<open>t\<close> minus the remainder of the elapsed time by the frame interval,
  rounded; the remainder is at least zero and less than one interval, and it is what is
  carried over to the next invocation. Any number of consecutive invocations whose elapsed
  time since the stored timestamp does not exceed the interval run no tick and leave the
  stored timestamp alone.
\<close>

theorem runGameLoop_throttle:
  "frameInterval = double (1000 / 60)
   \<and> (let c' = runGameLoop updateGame gs ts started t c;
           elapsed = double (t - lastTimestamp c) in
      ticks (calls c') \<le> ticks (calls c) + 1
      \<and> (ticks (calls c') = ticks (calls c) + 1 \<longleftrightarrow>
           lastTimestamp c \<noteq> 0 \<and> frameInterval < elapsed \<and> \<not> gameOver gs)
      \<and> (ticks (calls c') = ticks (calls c) + 1 \<longrightarrow>
           lastTimestamp c' = double (t - js_rem elapsed frameInterval)
           \<and> 0 \<le> js_rem elapsed frameInterval \<and> js_rem elapsed frameInterval < frameInterval))
   \<and> (lastTimestamp c \<noteq> 0 \<and> (\<forall>x\<in>set xs. double (x - lastTimestamp c) \<le> frameInterval) \<longrightarrow>
        ticks (calls (fold (runGameLoop updateGame gs ts started) xs c)) = ticks (calls c)
        \<and> lastTimestamp (fold (runGameLoop updateGame gs ts started) xs c) = lastTimestamp c)"
proof -
  let ?c' = "runGameLoop updateGame gs ts started t c"
  let ?e = "double (t - lastTimestamp c)"
  let ?fire = "lastTimestamp c \<noteq> 0 \<and> frameInterval < ?e"
  have a: "ticks (calls ?c') \<le> ticks (calls c) + 1"
    by (simp add: runGameLoop_ticks)
  have b: "ticks (calls ?c') = ticks (calls c) + 1 \<longleftrightarrow> ?fire \<and> \<not> gameOver gs"
    by (simp add: runGameLoop_ticks)
  have c: "lastTimestamp ?c' = double (t - js_rem ?e frameInterval)
           \<and> 0 \<le> js_rem ?e frameInterval \<and> js_rem ?e frameInterval < frameInterval"
    if "?fire"
  proof -
    from that have "0 \<le> ?e" using frameInterval_pos by linarith
    from js_rem_bounds[OF frameInterval_pos this] that
    show ?thesis by (simp add: runGameLoop_lastTimestamp)
  qed
  have d: "ticks (calls (fold (runGameLoop updateGame gs ts started) xs c)) = ticks (calls c)
        \<and> lastTimestamp (fold (runGameLoop updateGame gs ts started) xs c) = lastTimestamp c"
    if "lastTimestamp c \<noteq> 0" "\<forall>x\<in>set xs. double (x - lastTimestamp c) \<le> frameInterval"
    using quiet_frames[OF that] by simp
  have c': "ticks (calls ?c') = ticks (calls c) + 1 \<longrightarrow>
           lastTimestamp ?c' = double (t - js_rem ?e frameInterval)
           \<and> 0 \<le> js_rem ?e frameInterval \<and> js_rem ?e frameInterval < frameInterval"
    using b c by blast
  have d': "lastTimestamp c \<noteq> 0 \<and> (\<forall>x\<in>set xs. double (x - lastTimestamp c) \<le> frameInterval) \<longrightarrow>
        ticks (calls (fold (runGameLoop updateGame gs ts started) xs c)) = ticks (calls c)
        \<and> lastTimestamp (fold (runGameLoop updateGame gs ts started) xs c) = lastTimestamp c"
    using d by blast
  have e: "frameInterval = double (1000 / 60)"
    by (simp add: frameInterval_def targetFPS_def)
  show ?thesis
    unfolding Let_def using a b c' d' e by blast
qed

text \<open>
  The witness: from the stored timestamp 100, the frame at 150 ticks and stores
  133.33333333333334 (the remainder of 50 by the double \<^verbatim>\<open>1000 / 60\<close> is
  16.666666666666664), so that the frame at 160 ticks again; frames at 105, 110 and 116
  run no tick.
\<close>

theorem runGameLoop_throttle_witness:
  "frameInterval = 4691249611844267 / 281474976710656
   \<and> js_rem (double (150 - lastTimestamp midrun)) frameInterval
       = 4691249611844266 / 281474976710656
   \<and> ticks (calls (runGameLoop Suc playing idleTimer True 150 midrun)) = 1
   \<and> lastTimestamp (runGameLoop Suc playing idleTimer True 150 midrun)
       = 4691249611844267 / 35184372088832
   \<and> ticks (calls (fold (runGameLoop Suc playing idleTimer True) [150, 160] midrun)) = 2
   \<and> ticks (calls (fold (runGameLoop Suc playing idleTimer True) [105, 110, 116] midrun)) = 0"
proof -
  have v1: "js_rem (double (150 - lastTimestamp midrun)) frameInterval
       = 4691249611844266 / 281474976710656"
    by code_simp
  have v2: "ticks (calls (runGameLoop Suc playing idleTimer True 150 midrun)) = 1"
    by code_simp
  have v3: "lastTimestamp (runGameLoop Suc playing idleTimer True 150 midrun)
       = 4691249611844267 / 35184372088832"
    by code_simp
  have v4: "ticks (calls (fold (runGameLoop Suc playing idleTimer True) [150, 160] midrun)) = 2"
    by code_simp
  have v5: "ticks (calls (fold (runGameLoop Suc playing idleTimer True) [105, 110, 116] midrun)) = 0"
    by code_simp
  show ?thesis
    using runGameLoop_throttle[of Suc playing idleTimer True 150 midrun "[105, 110, 116]"]
      frameInterval_value v1 v2 v3 v4 v5
    by simp
qed

lemma quiet_frames_gameOver:
  "gameOver gs \<Longrightarrow>
   ticks (calls (fold (runGameLoop u gs ts st) xs c)) = ticks (calls c)
   \<and> world (fold (runGameLoop u gs ts st) xs c) = world c"
  by (induction xs arbitrary: c) (simp_all add: runGameLoop_ticks runGameLoop_world)

lemma renderGame_overlay: "gameOver gs \<Longrightarrow> DrawGameOver (score gs) \<in> set (renderGame gs ts)"
  by (simp add: renderGame_def)

text \<open>
  Claim C2, as stated, fails: with \<open>gameOver\<close> true and 5 ms elapsed since the stored
  timestamp, the invocation renders nothing.
\<close>

theorem gameOver_render_counterexample:
  "gameOver lost
   \<and> renders (calls (runGameLoop Suc lost idleTimer True 105 midrun)) = renders (calls midrun)"
  by code_simp

text \<open>
  Claim C2, amended. In every invocation of the loop callback in which \<open>gameOver\<close> is true,
  \<^verbatim>\<open>updateGame\<close> is not called and nothing a tick may change (the \<open>world\<close>) changes, also
  over any number of such invocations. \<^verbatim>\<open>renderGame\<close> is called, once, in exactly those
  invocations whose elapsed time exceeds the frame interval, and what it draws then
  includes the game-over overlay.
\<close>

theorem gameOver_skips_ticks:
  assumes "gameOver gs"
  shows "(let c' = runGameLoop updateGame gs ts started t c in
            ticks (calls c') = ticks (calls c)
            \<and> world c' = world c
            \<and> renders (calls c') = renders (calls c)
                 + (if lastTimestamp c \<noteq> 0 \<and> frameInterval < double (t - lastTimestamp c) then 1 else 0)
            \<and> (lastTimestamp c \<noteq> 0 \<and> frameInterval < double (t - lastTimestamp c) \<longrightarrow>
                 RenderGame (renderGame gs ts) \<in> set (calls c')
                 \<and> DrawGameOver (score gs) \<in> set (renderGame gs ts)))
         \<and> ticks (calls (fold (runGameLoop updateGame gs ts started) xs c)) = ticks (calls c)
         \<and> world (fold (runGameLoop updateGame gs ts started) xs c) = world c"
proof -
  let ?c' = "runGameLoop updateGame gs ts started t c"
  let ?fire = "lastTimestamp c \<noteq> 0 \<and> frameInterval < double (t - lastTimestamp c)"
  have 1: "ticks (calls ?c') = ticks (calls c)"
    using assms by (simp add: runGameLoop_ticks)
  have 2: "world ?c' = world c"
    using assms by (simp add: runGameLoop_world)
  have 3: "renders (calls ?c') = renders (calls c) + (if ?fire then 1 else 0)"
    by (rule runGameLoop_renders)
  have 4: "?fire \<longrightarrow> RenderGame (renderGame gs ts) \<in> set (calls ?c')
                 \<and> DrawGameOver (score gs) \<in> set (renderGame gs ts)"
    using assms by (simp add: runGameLoop_calls renderGame_overlay)
  show ?thesis
    unfolding Let_def
    using 1 2 3 4 quiet_frames_gameOver[OF assms, of updateGame ts started xs c]
    by blast
qed

theorem gameOver_skips_ticks_witness:
  "gameOver lost
   \<and> world (runGameLoop Suc lost idleTimer True 120 midrun) = 0
   \<and> renders (calls (runGameLoop Suc lost idleTimer True 120 midrun)) = 1
   \<and> DrawGameOver 30 \<in> set (renderGame lost idleTimer)
   \<and> world (fold (runGameLoop Suc lost idleTimer True) [120, 140, 160] midrun) = 0"
proof -
  have g: "gameOver lost"
    by (simp add: lost_def playing_def)
  have v: "renders (calls (runGameLoop Suc lost idleTimer True 120 midrun)) = 1"
    by code_simp
  have s: "score lost = 30" "world midrun = 0"
    by (simp_all add: lost_def playing_def midrun_def fresh_def)
  show ?thesis
    using g v s gameOver_skips_ticks[OF g, of Suc idleTimer True 120 midrun "[120, 140, 160]"]
    by (simp add: Let_def renderGame_overlay[OF g, of idleTimer, unfolded s])
qed

text \<open>
  Claim C3, as stated, fails: 10 ms after the stored timestamp the invocation does not
  render.
\<close>

theorem render_every_invocation_counterexample:
  "\<not> renders (calls (runGameLoop Suc playing idleTimer True 110 midrun))
       = renders (calls midrun) + 1"
  by code_simp

text \<open>
  Claim C3, amended. An invocation of the loop callback renders exactly once when the
  time elapsed since the stored timestamp exceeds the frame interval, whether or not a
  simulation tick ran in it (none runs when the game is over), and does not render
  otherwise: rendering sits behind the same throttle as the tick.
\<close>

theorem render_once_per_due_frame:
  "renders (calls (runGameLoop updateGame gs ts started t c)) =
     renders (calls c)
     + (if lastTimestamp c \<noteq> 0 \<and> frameInterval < double (t - lastTimestamp c) then 1 else 0)"
  by (rule runGameLoop_renders)

theorem render_once_per_due_frame_witness:
  "renders (calls (runGameLoop Suc playing idleTimer True 120 midrun)) = 1
   \<and> renders (calls (runGameLoop Suc lost idleTimer True 120 midrun)) = 1
   \<and> renders (calls (runGameLoop Suc playing idleTimer True 110 midrun)) = 0"
proof -
  have d: "double 20 = 20" "double 10 = 10"
    by code_simp+
  have r: "renders (calls midrun) = 0" "lastTimestamp midrun = 100"
    by (simp_all add: midrun_def fresh_def renders_def)
  show ?thesis
    using render_once_per_due_frame[of Suc playing idleTimer True 120 midrun]
      render_once_per_due_frame[of Suc lost idleTimer True 120 midrun]
      render_once_per_due_frame[of Suc playing idleTimer True 110 midrun]
    by (simp add: d r frameInterval_value)
qed

subsection \<open>Leaving the game\<close>

lemma handleReturn_calls:
  "calls (handleReturn c) =
     calls c
     @ (case audioRef c of None \<Rightarrow> [] | Some a \<Rightarrow> [AudioPause, AudioSeek 0])
     @ (case gameLoopRef c of None \<Rightarrow> [] | Some h \<Rightarrow> if h \<noteq> 0 then [CancelFrame h] else [])
     @ [OnReturn]"
  by (simp add: handleReturn_def Let_def cancelAnimationFrame_def split: option.splits)

lemma handleReturn_audio:
  "audioRef (handleReturn c) =
     (case audioRef c of None \<Rightarrow> None | Some a \<Rightarrow> Some (a\<lparr>paused := True, currentTime := 0\<rparr>))"
  by (simp add: handleReturn_def Let_def cancelAnimationFrame_def split: option.splits)

lemma handleReturn_scheduled:
  "scheduled (handleReturn c) =
     (case gameLoopRef c of None \<Rightarrow> scheduled c
      | Some h \<Rightarrow> if h \<noteq> 0 then removeAll h (scheduled c) else scheduled c)"
  by (simp add: handleReturn_def Let_def cancelAnimationFrame_def split: option.splits)

lemma loopInv_cases:
  "loopInv c \<longleftrightarrow>
     0 < nextHandle c \<and> (scheduled c = [] \<or> (\<exists>h. h \<noteq> 0 \<and> scheduled c = [h] \<and> gameLoopRef c = Some h))"
  by (auto simp: loopInv_def split: list.splits)

lemma animationFrame_idle: "scheduled c = [] \<Longrightarrow> animationFrame f t c = c"
  by (simp add: animationFrame_def)

lemma animationFrames_idle: "scheduled c = [] \<Longrightarrow> fold (animationFrame f) xs c = c"
  by (induction xs) (simp_all add: animationFrame_idle)

lemma loopInv_gameLoopEffect:
  "0 < nextHandle c \<Longrightarrow> scheduled c = [] \<Longrightarrow> loopInv (gameLoopEffect gameStarted canvas ctx c)"
  by (simp add: loopInv_def gameLoopEffect_def requestAnimationFrame_def)

lemma loopInv_gameLoopCleanup: "loopInv c \<Longrightarrow> loopInv (gameLoopCleanup c)"
  by (auto simp: loopInv_cases gameLoopCleanup_def cancelAnimationFrame_def split: option.splits)

lemma loopInv_rerun:
  assumes "loopInv c"
  shows "loopInv (gameLoopEffect gameStarted canvas ctx (gameLoopCleanup c))"
proof -
  have n: "0 < nextHandle (gameLoopCleanup c)"
    using assms
    by (auto simp: loopInv_cases gameLoopCleanup_def cancelAnimationFrame_def
        split: option.splits)
  have s: "scheduled (gameLoopCleanup c) = []"
    using assms
    by (auto simp: loopInv_cases gameLoopCleanup_def cancelAnimationFrame_def
        split: option.splits)
  show ?thesis by (rule loopInv_gameLoopEffect[OF n s])
qed

lemma runGameLoop_scheduled:
  "scheduled (runGameLoop u gs ts st t c) = scheduled c @ (if st then [nextHandle c] else [])"
  by (simp add: runGameLoop_def Let_def requestAnimationFrame_def split: prod.splits)

lemma runGameLoop_gameLoopRef:
  "gameLoopRef (runGameLoop u gs ts st t c) = (if st then Some (nextHandle c) else gameLoopRef c)"
  by (simp add: runGameLoop_def Let_def requestAnimationFrame_def split: prod.splits)

lemma runGameLoop_nextHandle:
  "nextHandle (runGameLoop u gs ts st t c) = (if st then nextHandle c + 1 else nextHandle c)"
  by (simp add: runGameLoop_def Let_def requestAnimationFrame_def split: prod.splits)

lemma loopInv_animationFrame:
  assumes "loopInv c"
  shows "loopInv (animationFrame (runGameLoop u gs ts st) t c)"
proof -
  from assms consider "scheduled c = []" | h where "scheduled c = [h]"
    by (auto simp: loopInv_cases)
  then show ?thesis
  proof cases
    case 1
    then show ?thesis using assms by (simp add: animationFrame_idle)
  next
    case 2
    then have "animationFrame (runGameLoop u gs ts st) t c
                 = runGameLoop u gs ts st t (c\<lparr>scheduled := []\<rparr>)"
      by (simp add: animationFrame_def)
    then show ?thesis using assms
      by (simp add: loopInv_def runGameLoop_scheduled runGameLoop_gameLoopRef
          runGameLoop_nextHandle)
  qed
qed

text \<open>
  Claim C6. \<^verbatim>\<open>handleReturn\<close> pauses and rewinds the audio element (when there is one)
  and cancels the scheduled animation-frame callback before it calls \<^verbatim>\<open>onReturn\<close>, which
  is the last thing it does. Afterwards no callback is scheduled, so however many display
  refreshes follow, the browser runs nothing: the state, and with it the record of calls,
  stays as \<^verbatim>\<open>handleReturn\<close> left it, and no simulation tick runs.
  The hypothesis \<open>loopInv\<close> holds after the loop effect and after every frame
  and after a re-run of the effect (\<open>loopInv_gameLoopEffect\<close>, \<open>loopInv_animationFrame\<close>,
  \<open>loopInv_rerun\<close>); what React does after the handler
  (a later render that would run the loop effect again) is outside this model.
\<close>

theorem handleReturn_cancels_before_onReturn:
  assumes "loopInv c"
  shows "calls (handleReturn c) =
           calls c
           @ (case audioRef c of None \<Rightarrow> [] | Some a \<Rightarrow> [AudioPause, AudioSeek 0])
           @ (case gameLoopRef c of None \<Rightarrow> []
              | Some h \<Rightarrow> if h \<noteq> 0 then [CancelFrame h] else [])
           @ [OnReturn]
         \<and> (\<forall>h\<in>set (scheduled c). CancelFrame h \<in> set (calls (handleReturn c)))
         \<and> (\<forall>a. audioRef c = Some a \<longrightarrow>
               audioRef (handleReturn c) = Some (a\<lparr>paused := True, currentTime := 0\<rparr>))
         \<and> scheduled (handleReturn c) = []
         \<and> fold (animationFrame (runGameLoop updateGame gs ts started)) frames (handleReturn c)
             = handleReturn c"
proof -
  have s: "scheduled (handleReturn c) = []"
    using assms by (auto simp: loopInv_cases handleReturn_scheduled split: option.splits)
  have k: "\<forall>h\<in>set (scheduled c). CancelFrame h \<in> set (calls (handleReturn c))"
    using assms by (auto simp: loopInv_cases handleReturn_calls)
  have a: "\<forall>a. audioRef c = Some a \<longrightarrow>
               audioRef (handleReturn c) = Some (a\<lparr>paused := True, currentTime := 0\<rparr>)"
    by (simp add: handleReturn_audio)
  show ?thesis
    using s k a handleReturn_calls[of c] animationFrames_idle[OF s] by blast
qed

theorem handleReturn_cancels_before_onReturn_witness:
  "loopInv midrun
   \<and> calls (handleReturn midrun) = [AudioPause, AudioSeek 0, CancelFrame 7, OnReturn]
   \<and> audioRef (handleReturn midrun) = Some \<lparr>paused = True, currentTime = 0\<rparr>
   \<and> scheduled (handleReturn midrun) = []
   \<and> fold (animationFrame (runGameLoop Suc playing idleTimer True)) [120, 140]
        (handleReturn midrun) = handleReturn midrun"
proof -
  have inv: "loopInv midrun"
    by (simp add: loopInv_def midrun_def fresh_def)
  show ?thesis
    using inv handleReturn_cancels_before_onReturn[OF inv, of Suc playing idleTimer True "[120, 140]"]
    by (simp add: midrun_def fresh_def)
qed

subsection \<open>Mounting and unmounting\<close>

lemma unmount_calls:
  "calls (unmount (fold rerender ps (mount p0 c))) =
     calls c @ [SetGameStarted True, ResetGame]
     @ (if onStartGiven p0 \<and> \<not> isRunning (timerStateProp p0) then [OnStart] else [])
     @ (if onPauseGiven p0 \<and> isRunning (timerStateProp p0) then [OnPause] else [])"
proof -
  have "state (fold rerender ps m) = state m \<and> cleanup (fold rerender ps m) = cleanup m" for m :: "'a mounted"
    by (induction ps arbitrary: m) (simp_all add: rerender_def)
  then show ?thesis
    by (simp add: unmount_def mount_def mountEffect_def)
qed

text \<open>
  Claim C7 at a concrete run: the game is mounted while the timer is idle (so the mount
  effect calls \<^verbatim>\<open>onStart\<close>), the timer then runs and the component is rendered again
  with the running timer state, and the component is unmounted. An \<^verbatim>\<open>onPause\<close> callback
  is given and the timer is running at teardown, yet \<^verbatim>\<open>onPause\<close> is not called: the
  cleanup reads the timer state of the first render (\<open>unmount_calls\<close>).
\<close>

theorem unmount_reads_mount_time_timer:
  "onPauseGiven (current (rerender \<lparr>timerStateProp = runningTimer, onStartGiven = True, onPauseGiven = True\<rparr>
       (mount \<lparr>timerStateProp = idleTimer, onStartGiven = True, onPauseGiven = True\<rparr> fresh)))
   \<and> isRunning (timerStateProp (current (rerender \<lparr>timerStateProp = runningTimer, onStartGiven = True, onPauseGiven = True\<rparr>
       (mount \<lparr>timerStateProp = idleTimer, onStartGiven = True, onPauseGiven = True\<rparr> fresh))))
   \<and> calls (unmount (rerender \<lparr>timerStateProp = runningTimer, onStartGiven = True, onPauseGiven = True\<rparr>
       (mount \<lparr>timerStateProp = idleTimer, onStartGiven = True, onPauseGiven = True\<rparr> fresh)))
     = [SetGameStarted True, ResetGame, OnStart]"
  by (simp add: unmount_def rerender_def mount_def mountEffect_def idleTimer_def runningTimer_def
      fresh_def)

section \<open>Properties of the collectible renderers\<close>

lemma length_coinImages: "length (coinImages loaded) = 4"
  by (simp add: coinImages_def imageUrls_def)

lemma length_coinImages_assets: "length (coinImages_assets url loaded) = 4"
  by (simp add: coinImages_assets_def)

lemma length_imageUrls: "length imageUrls = 4"
  by (simp add: imageUrls_def)

lemma complete_coinImages: "k < 4 \<Longrightarrow> complete (coinImages loaded ! k) = loaded k"
  by (simp add: coinImages_def length_imageUrls nth_enumerate_eq)

lemma imagesDrawn_append: "imagesDrawn (xs @ ys) = imagesDrawn xs @ imagesDrawn ys"
  by (induction xs rule: imagesDrawn.induct) simp_all

lemma imagesDrawn_concat: "imagesDrawn (concat xss) = concat (map imagesDrawn xss)"
  by (induction xss) (simp_all add: imagesDrawn_append)

lemma forEach_index:
  "map (\<lambda>(i, c). f c i) (enumerate n cs) = map (\<lambda>i. f (cs ! (i - n)) i) [n..<n + length cs]"
  by (rule nth_equalityI) (simp_all add: nth_enumerate_eq)

lemma drawCollectibles_each:
  "drawCollectibles images coins off =
     concat (map (\<lambda>i. eachCoin images off (coins ! i) i) [0..<length coins])"
  using forEach_index[of "eachCoin images off" 0 coins] by (simp add: drawCollectibles_def)

lemma drawCollectibles_assets_each:
  "drawCollectibles_assets images coins off =
     concat (map (\<lambda>i. eachCoin_assets images off (coins ! i) i) [0..<length coins])"
  using forEach_index[of "eachCoin_assets images off" 0 coins]
  by (simp add: drawCollectibles_assets_def)

lemma imagesDrawn_eachCoin:
  "imagesDrawn (eachCoin (coinImages loaded) off coin i) =
     (if \<not> collected coin \<and> xpos coin - off < 700 \<and> xpos coin - off + width coin > - 20
         \<and> loaded (i mod 4)
      then [i mod 4] else [])"
  by (simp add: eachCoin_def Let_def length_coinImages complete_coinImages)

lemma imagesDrawn_eachCoin_assets:
  "imagesDrawn (eachCoin_assets (coinImages_assets url loaded) off coin i) =
     (if \<not> collected coin \<and> xpos coin - off < 700 \<and> xpos coin - off + width coin > - 20
      then [i mod 4] else [])"
  by (simp add: eachCoin_assets_def Let_def length_coinImages_assets)

lemma eachCoin_shown:
  "eachCoin images off coin i \<noteq> [] \<longleftrightarrow>
     \<not> collected coin \<and> xpos coin - off < 700 \<and> xpos coin - off + width coin > - 20"
  by (simp add: eachCoin_def Let_def)

lemma eachCoin_assets_shown:
  "eachCoin_assets images off coin i \<noteq> [] \<longleftrightarrow>
     \<not> collected coin \<and> xpos coin - off < 700 \<and> xpos coin - off + width coin > - 20"
  by (simp add: eachCoin_assets_def Let_def)


text \<open>
  Claim C4. In both renderers the image drawn for the coin at array position \<open>i\<close> is the
  one at index \<open>i mod 4\<close> of \<^verbatim>\<open>coinImages\<close>: for a whole array, the images drawn are,
  in order, \<open>i mod 4\<close> for the positions \<open>i\<close> whose coin is drawn (the first renderer
  draws the image only once it has loaded). The index depends on nothing but \<open>i\<close>, and
  when the images have loaded the two renderers draw the same indices.
\<close>

theorem coin_variant_index_mod_4:
  "imagesDrawn (drawCollectibles (coinImages loaded) coins off) =
     concat (map (\<lambda>i. if \<not> collected (coins ! i) \<and> xpos (coins ! i) - off < 700
                           \<and> xpos (coins ! i) - off + width (coins ! i) > - 20
                           \<and> loaded (i mod 4)
                        then [i mod 4] else []) [0..<length coins])
   \<and> imagesDrawn (drawCollectibles_assets (coinImages_assets url loaded') coins off) =
     concat (map (\<lambda>i. if \<not> collected (coins ! i) \<and> xpos (coins ! i) - off < 700
                           \<and> xpos (coins ! i) - off + width (coins ! i) > - 20
                        then [i mod 4] else []) [0..<length coins])
   \<and> ((\<forall>k<4. loaded k) \<longrightarrow>
        imagesDrawn (drawCollectibles (coinImages loaded) coins off)
        = imagesDrawn (drawCollectibles_assets (coinImages_assets url loaded') coins off))
   \<and> (\<forall>k a b w h. DrawImage k a b w h \<in> set (eachCoin (coinImages loaded) off coin i) \<longrightarrow>
          k = i mod 4)
   \<and> (\<forall>k a b w h. DrawImage k a b w h
          \<in> set (eachCoin_assets (coinImages_assets url loaded') off coin i) \<longrightarrow> k = i mod 4)"
proof -
  have A: "imagesDrawn (drawCollectibles (coinImages loaded) coins off) =
     concat (map (\<lambda>i. if \<not> collected (coins ! i) \<and> xpos (coins ! i) - off < 700
                           \<and> xpos (coins ! i) - off + width (coins ! i) > - 20
                           \<and> loaded (i mod 4)
                        then [i mod 4] else []) [0..<length coins])"
    by (simp add: drawCollectibles_each imagesDrawn_concat comp_def imagesDrawn_eachCoin)
  have B: "imagesDrawn (drawCollectibles_assets (coinImages_assets url loaded') coins off) =
     concat (map (\<lambda>i. if \<not> collected (coins ! i) \<and> xpos (coins ! i) - off < 700
                           \<and> xpos (coins ! i) - off + width (coins ! i) > - 20
                        then [i mod 4] else []) [0..<length coins])"
    by (simp add: drawCollectibles_assets_each imagesDrawn_concat comp_def
        imagesDrawn_eachCoin_assets)
  have C: "imagesDrawn (drawCollectibles (coinImages loaded) coins off)
        = imagesDrawn (drawCollectibles_assets (coinImages_assets url loaded') coins off)"
    if "\<forall>k<4. loaded k"
  proof -
    from that have "loaded (i mod 4)" for i by simp
    then show ?thesis unfolding A B by simp
  qed
  have D: "k = i mod 4" if "DrawImage k a b w h \<in> set (eachCoin (coinImages loaded) off coin i)"
    for k a b w h
    using that by (auto simp: eachCoin_def Let_def length_coinImages split: if_splits)
  have E: "k = i mod 4"
    if "DrawImage k a b w h \<in> set (eachCoin_assets (coinImages_assets url loaded') off coin i)"
    for k a b w h
    using that by (auto simp: eachCoin_assets_def Let_def length_coinImages_assets split: if_splits)
  show ?thesis using A B C D E by blast
qed

lemma upt6: "[0..<6] = [0, 1, 2, 3, 4, 5]"
  by (simp add: upt_rec)

theorem coin_variant_index_mod_4_witness:
  "imagesDrawn (drawCollectibles (coinImages allLoaded) row 0) = [0, 1, 3, 0]
   \<and> imagesDrawn (drawCollectibles_assets (coinImages_assets id allLoaded) row 0) = [0, 1, 3, 0]"
  using coin_variant_index_mod_4[of allLoaded row 0 id allLoaded]
  by (simp add: row_def coin0_def allLoaded_def upt6)

lemma no_symmetric_margin:
  "\<not> (\<exists>m\<ge>0. \<forall>coin off. eachCoin images off coin i \<noteq> []
                  \<longleftrightarrow> \<not> collected coin \<and> meetsViewport m m off coin)"
proof
  assume "\<exists>m\<ge>0. \<forall>coin off. eachCoin images off coin i \<noteq> []
                  \<longleftrightarrow> \<not> collected coin \<and> meetsViewport m m off coin"
  then obtain m where m: "0 \<le> m"
    and eq: "\<And>coin off. eachCoin images off coin i \<noteq> []
                  \<longleftrightarrow> \<not> collected coin \<and> meetsViewport m m off coin"
    by blast
  show False
  proof (cases "m = 0")
    case True
    from eq[of 0 "coin0\<lparr>xpos := - 10, width := 5\<rparr>"] True show False
      by (simp add: eachCoin_shown meetsViewport_def coin0_def)
  next
    case False
    with m have "0 < m" by simp
    with eq[of 0 "coin0\<lparr>xpos := 700, width := 1\<rparr>"] show False
      by (simp add: eachCoin_shown meetsViewport_def coin0_def)
  qed
qed

text \<open>
  Claim C5, as stated, fails. A coin that is not collected and lies 5 to 15 pixels right of
  the canvas meets the viewport widened by 20 pixels on each side, and is not drawn; and no
  margin taken on both sides turns the renderers' test into the stated equivalence.
\<close>

theorem culling_margin_counterexample:
  "\<not> collected edgeCoin
   \<and> meetsViewport 20 20 0 edgeCoin
   \<and> eachCoin (coinImages allLoaded) 0 edgeCoin 0 = []
   \<and> drawCollectibles (coinImages allLoaded) [edgeCoin] 0 = []
   \<and> drawCollectibles_assets (coinImages_assets id allLoaded) [edgeCoin] 0 = []
   \<and> \<not> (\<exists>m\<ge>0. \<forall>coin off. eachCoin (coinImages allLoaded) off coin 0 \<noteq> []
                  \<longleftrightarrow> \<not> collected coin \<and> meetsViewport m m off coin)"
  using no_symmetric_margin[of "coinImages allLoaded" 0]
  by (simp add: edgeCoin_def coin0_def meetsViewport_def eachCoin_def eachCoin_assets_def
      drawCollectibles_def drawCollectibles_assets_def)

lemma meetsViewport_point:
  assumes "0 \<le> width coin" "- left < 700 + right"
  shows "meetsViewport left right off coin \<longleftrightarrow>
         (\<exists>p. xpos coin - off \<le> p \<and> p \<le> xpos coin - off + width coin
              \<and> - left < p \<and> p < 700 + right)"
proof
  assume m: "meetsViewport left right off coin"
  let ?a = "xpos coin - off"
  let ?b = "?a + width coin"
  show "\<exists>p. ?a \<le> p \<and> p \<le> ?b \<and> - left < p \<and> p < 700 + right"
  proof (cases "- left < ?a")
    case True
    with m assms show ?thesis
      by (intro exI[of _ ?a]) (simp add: meetsViewport_def)
  next
    case False
    let ?p = "min ?b ((- left + (700 + right)) / 2)"
    from False m assms have "?a \<le> ?p \<and> ?p \<le> ?b \<and> - left < ?p \<and> ?p < 700 + right"
      by (simp add: meetsViewport_def min_def)
    then show ?thesis by blast
  qed
next
  assume "\<exists>p. xpos coin - off \<le> p \<and> p \<le> xpos coin - off + width coin
              \<and> - left < p \<and> p < 700 + right"
  then show "meetsViewport left right off coin"
    by (auto simp: meetsViewport_def)
qed

text \<open>
  Claim C5, amended. Each renderer draws a coin if and only if the coin is not collected
  and its camera-adjusted horizontal extent meets the viewport widened by 20 pixels on the
  left side only, that is the interval from \<open>-20\<close> to \<open>700\<close> (\<open>meetsViewport_point\<close>);
  culling hides no other coin. Whether a coin is drawn depends on that coin alone: the
  calls for an array are the calls for its coins, in order.
\<close>

theorem coin_drawn_iff_in_left_widened_viewport:
  "(eachCoin images off coin i \<noteq> [] \<longleftrightarrow> \<not> collected coin \<and> meetsViewport 20 0 off coin)
   \<and> (eachCoin_assets images' off coin i \<noteq> [] \<longleftrightarrow> \<not> collected coin \<and> meetsViewport 20 0 off coin)
   \<and> drawCollectibles images coins off
       = concat (map (\<lambda>i. eachCoin images off (coins ! i) i) [0..<length coins])
   \<and> drawCollectibles_assets images' coins off
       = concat (map (\<lambda>i. eachCoin_assets images' off (coins ! i) i) [0..<length coins])"
  by (simp add: eachCoin_shown eachCoin_assets_shown meetsViewport_def
      drawCollectibles_each drawCollectibles_assets_each)

theorem coin_drawn_iff_in_left_widened_viewport_witness:
  "eachCoin (coinImages allLoaded) 0 (coin0\<lparr>xpos := - 30\<rparr>) 0 \<noteq> []
   \<and> eachCoin (coinImages allLoaded) 0 (coin0\<lparr>xpos := 700\<rparr>) 0 = []
   \<and> eachCoin_assets (coinImages_assets id allLoaded) 0 (coin0\<lparr>xpos := 699\<rparr>) 0 \<noteq> []
   \<and> eachCoin_assets (coinImages_assets id allLoaded) 0 (coin0\<lparr>xpos := - 40\<rparr>) 0 = []"
  using coin_drawn_iff_in_left_widened_viewport[of "coinImages allLoaded" 0 "coin0\<lparr>xpos := - 30\<rparr>" 0]
    coin_drawn_iff_in_left_widened_viewport[of "coinImages allLoaded" 0 "coin0\<lparr>xpos := 700\<rparr>" 0]
    coin_drawn_iff_in_left_widened_viewport[of _ 0 "coin0\<lparr>xpos := 699\<rparr>" 0 "coinImages_assets id allLoaded"]
    coin_drawn_iff_in_left_widened_viewport[of _ 0 "coin0\<lparr>xpos := - 40\<rparr>" 0 "coinImages_assets id allLoaded"]
  by (simp add: meetsViewport_def coin0_def)

section \<open>Properties of the timer hook\<close>

lemma timerInv_clearIntervalRef: "timerInv (clearIntervalRef h) = timerInv h"
  by (simp add: timerInv_def clearIntervalRef_def split: option.splits)

lemma timerState_clearIntervalRef: "timerState (clearIntervalRef h) = timerState h"
  by (simp add: clearIntervalRef_def split: option.splits)

lemma settingsRef_clearIntervalRef: "settingsRef (clearIntervalRef h) = settingsRef h"
  by (simp add: clearIntervalRef_def split: option.splits)

lemma timerInv_startTimerInterval: "timerInv (startTimerInterval h) = timerInv h"
  by (simp add: timerInv_def startTimerInterval_def)

lemma timerInv_saveLastUpdate: "timerInv (saveLastUpdate now h) = timerInv h"
  by (simp add: timerInv_def saveLastUpdate_def)

lemma timerInv_saveTimerState:
  "0 \<le> timeRemaining v \<Longrightarrow> timerInv h \<Longrightarrow> timerInv (saveTimerState v h)"
  by (simp add: timerInv_def saveTimerState_def)

lemma timerInv_effects: "timerInv (h\<lparr>effects := e\<rparr>) = timerInv h"
  by (simp add: timerInv_def)

lemma timerInv_timerState:
  "0 \<le> timeRemaining v \<Longrightarrow> timerInv h \<Longrightarrow> timerInv (h\<lparr>timerState := v\<rparr>)"
  by (simp add: timerInv_def)

lemma timerInv_lastUpdateRef: "timerInv (h\<lparr>lastUpdateRef := t\<rparr>) = timerInv h"
  by (simp add: timerInv_def)

lemma timerInv_remaining: "timerInv h \<Longrightarrow> 0 \<le> timeRemaining (timerState h)"
  by (simp add: timerInv_def)

lemma nextDuration_nonneg:
  assumes "\<forall>m\<ge>0. 0 \<le> m2s m" "timerInv h"
  shows "0 \<le> m2s (focusDuration (settingsRef h)) \<and> 0 \<le> m2s (breakDuration (settingsRef h))"
  using assms by (simp add: timerInv_def settingsOk_def)

lemma handleTimerCompletion_fst:
  "fst (handleTimerCompletion m2s cm now h) =
     \<lparr>mode = (if cm = Focus then Break else Focus),
      timeRemaining = (if cm = Focus then m2s (breakDuration (settingsRef h))
                       else m2s (focusDuration (settingsRef h))),
      isRunning = False, breakActivity = None, completed = True\<rparr>"
  by (simp add: handleTimerCompletion_def Let_def settingsRef_clearIntervalRef)

lemma handleTimerCompletion_inv:
  assumes "\<forall>m\<ge>0. 0 \<le> m2s m" "timerInv h"
  shows "timerInv (snd (handleTimerCompletion m2s cm now h))
         \<and> 0 \<le> timeRemaining (fst (handleTimerCompletion m2s cm now h))"
proof -
  have d: "0 \<le> timeRemaining (fst (handleTimerCompletion m2s cm now h))"
    using nextDuration_nonneg[OF assms] by (simp add: handleTimerCompletion_fst)
  have "timerInv (snd (handleTimerCompletion m2s cm now h))"
    using nextDuration_nonneg[OF assms] assms(2)
    by (simp add: handleTimerCompletion_def Let_def timerInv_saveLastUpdate
        timerInv_saveTimerState timerInv_effects timerInv_clearIntervalRef
        settingsRef_clearIntervalRef)
  with d show ?thesis by simp
qed

lemma intervalCallback_inv:
  assumes "\<forall>m\<ge>0. 0 \<le> m2s m" "timerInv h"
  shows "timerInv (intervalCallback m2s now h)"
proof (cases "timeRemaining (timerState h) \<le> 1")
  case True
  obtain s h' where c: "handleTimerCompletion m2s (mode (timerState h)) now h = (s, h')"
    by (cases "handleTimerCompletion m2s (mode (timerState h)) now h")
  from handleTimerCompletion_inv[OF assms, of "mode (timerState h)" now] c
  have "timerInv h'" "0 \<le> timeRemaining s" by simp_all
  then show ?thesis using True c
    by (simp add: intervalCallback_def Let_def timerInv_timerState)
next
  case False
  let ?n = "(timerState h)\<lparr>timeRemaining := timeRemaining (timerState h) - 1, completed := False\<rparr>"
  from False have n: "0 \<le> timeRemaining ?n" by simp
  have "timerInv (saveTimerState ?n h)"
    by (rule timerInv_saveTimerState[OF n assms(2)])
  then have "timerInv (saveLastUpdate now (saveTimerState ?n h))"
    by (simp only: timerInv_saveLastUpdate)
  then have "timerInv ((saveLastUpdate now (saveTimerState ?n h))\<lparr>timerState := ?n\<rparr>)"
    by (rule timerInv_timerState[OF n])
  then show ?thesis using False
    by (simp add: intervalCallback_def Let_def)
qed

lemma resetTimer_inv:
  assumes "\<forall>m\<ge>0. 0 \<le> m2s m" "timerInv h"
  shows "timerInv (resetTimer m2s m h)"
  using nextDuration_nonneg[OF assms] assms(2)
  by (simp add: resetTimer_def Let_def timerInv_timerState timerInv_clearIntervalRef
      settingsRef_clearIntervalRef)

lemma startTimer_inv:
  assumes "\<forall>m\<ge>0. 0 \<le> m2s m" "timerInv h" "0 \<le> timeRemaining captured"
  shows "timerInv (startTimer m2s now captured h)"
proof -
  let ?n = "captured\<lparr>isRunning := True, completed := False\<rparr>"
  have n: "0 \<le> timeRemaining ?n" using assms(3) by simp
  have "timerInv (h\<lparr>timerState := ?n\<rparr>)"
    by (rule timerInv_timerState[OF n assms(2)])
  then have "timerInv (saveTimerState ?n (h\<lparr>timerState := ?n\<rparr>))"
    by (rule timerInv_saveTimerState[OF n])
  then have "timerInv (startTimerInterval (saveLastUpdate now (saveTimerState ?n (h\<lparr>timerState := ?n\<rparr>))))"
    by (simp only: timerInv_startTimerInterval timerInv_saveLastUpdate)
  then show ?thesis
    using assms(2) resetTimer_inv[OF assms(1,2)]
    by (simp add: startTimer_def Let_def)
qed

lemma pauseTimer_inv: "timerInv h \<Longrightarrow> timerInv (pauseTimer captured h)"
  by (simp add: pauseTimer_def Let_def timerInv_def clearIntervalRef_def split: option.splits)

lemma updateFocusDuration_inv:
  "\<forall>m\<ge>0. 0 \<le> m2s m \<Longrightarrow> 0 \<le> minutes \<Longrightarrow> timerInv h \<Longrightarrow>
   timerInv (updateFocusDuration m2s minutes captured h)"
  by (simp add: updateFocusDuration_def timerInv_def)

lemma updateBreakDuration_inv:
  "\<forall>m\<ge>0. 0 \<le> m2s m \<Longrightarrow> 0 \<le> minutes \<Longrightarrow> timerInv h \<Longrightarrow>
   timerInv (updateBreakDuration m2s minutes captured h)"
  by (simp add: updateBreakDuration_def timerInv_def)

lemma storedSettings_inv:
  "timerInv h \<Longrightarrow> timerInv (case storedSettings h of None \<Rightarrow> h | Some s \<Rightarrow> h\<lparr>settingsRef := s\<rparr>)"
  by (simp add: timerInv_def split: option.splits)

lemma loadStoredTimerState_inv:
  assumes m: "\<forall>m\<ge>0. 0 \<le> m2s m" and i: "timerInv h"
  shows "timerInv (loadStoredTimerState m2s now h)"
proof (cases "extensionContext h")
  case False
  then show ?thesis using i by (simp add: loadStoredTimerState_def)
next
  case True
  define h1 where "h1 = (case storedSettings h of None \<Rightarrow> h | Some s \<Rightarrow> h\<lparr>settingsRef := s\<rparr>)"
  have i1: "timerInv h1" unfolding h1_def by (rule storedSettings_inv[OF i])
  have body: "timerInv
       ((if isRunning s then
           (let st = s\<lparr>timeRemaining := max 0 (timeRemaining s - e)\<rparr>
            in if timeRemaining st \<le> 0
               then snd (handleTimerCompletion m2s (mode st) now h1)
               else (let h3 = h1\<lparr>timerState := st\<rparr>
                     in case intervalRef h3 of
                          None \<Rightarrow> startTimerInterval h3
                        | Some i \<Rightarrow> if i = 0 then startTimerInterval h3 else h3))
         else h1\<lparr>timerState := s\<rparr>)\<lparr>lastUpdateRef := now\<rparr>)"
    if s: "storedTimerState h1 = Some s" for s e
  proof -
    from i1 s have s0: "0 \<le> timeRemaining s" by (simp add: timerInv_def)
    let ?st = "s\<lparr>timeRemaining := max 0 (timeRemaining s - e)\<rparr>"
    have st0: "0 \<le> timeRemaining ?st" by simp
    have a: "timerInv (h1\<lparr>timerState := ?st\<rparr>)" by (rule timerInv_timerState[OF st0 i1])
    have b: "timerInv (startTimerInterval (h1\<lparr>timerState := ?st\<rparr>))"
      using a by (simp only: timerInv_startTimerInterval)
    have c: "timerInv (snd (handleTimerCompletion m2s cm now h1))" for cm
      using handleTimerCompletion_inv[OF m i1] by simp
    have d: "timerInv (h1\<lparr>timerState := s\<rparr>)" by (rule timerInv_timerState[OF s0 i1])
    show ?thesis
      unfolding timerInv_lastUpdateRef Let_def
      using a b c d by (auto split: option.splits)
  qed
  show ?thesis
    using True i1 body
    by (simp add: loadStoredTimerState_def h1_def[symmetric] timerInv_lastUpdateRef
        del: Let_def split: option.splits)
qed

lemma timerStep_inv:
  assumes "\<forall>m\<ge>0. 0 \<le> m2s m" "timerInv h" "eventDurationsOk e"
  shows "timerInv (timerStep m2s e h)"
proof (cases e)
  case (IntervalFires now)
  then show ?thesis using assms(2) intervalCallback_inv[OF assms(1,2)]
    by (simp split: option.splits)
next
  case (SettingsChanged s)
  then show ?thesis using assms(2,3) by (simp add: timerInv_def settingsOk_def)
qed (use assms in \<open>simp_all add: resetTimer_inv startTimer_inv pauseTimer_inv
      loadStoredTimerState_inv updateFocusDuration_inv updateBreakDuration_inv
      timerInv_remaining\<close>)

lemma timerSteps_inv:
  assumes "\<forall>m\<ge>0. 0 \<le> m2s m"
  shows "timerInv h \<Longrightarrow> \<forall>e\<in>set es. eventDurationsOk e \<Longrightarrow> timerInv (fold (timerStep m2s) es h)"
  by (induction es arbitrary: h) (simp_all add: timerStep_inv[OF assms])

lemma initialHook_inv:
  assumes "\<forall>m\<ge>0. 0 \<le> m2s m" "settingsOk settings"
    "case st of None \<Rightarrow> True | Some s \<Rightarrow> 0 \<le> timeRemaining s"
    "case ss of None \<Rightarrow> True | Some s \<Rightarrow> settingsOk s"
  shows "timerInv (initialHook m2s settings ext st lu ss now)"
  using assms by (simp add: timerInv_def initialHook_def settingsOk_def)


lemma intervalCallback_timeRemaining:
  "timerState (intervalCallback m2s now h) =
     (if timeRemaining (timerState h) \<le> 1
      then fst (handleTimerCompletion m2s (mode (timerState h)) now h)
      else (timerState h)\<lparr>timeRemaining := timeRemaining (timerState h) - 1, completed := False\<rparr>)"
  by (simp add: intervalCallback_def Let_def split: prod.splits)

lemma loadStoredTimerState_running:
  assumes "extensionContext h" "storedTimerState h = Some s" "storedLastUpdate h = Some lu"
    "lu \<noteq> 0" "isRunning s"
  shows "timeRemaining (timerState (loadStoredTimerState m2s now h)) =
           (if timeRemaining s - of_int \<lfloor>(now - lu) / 1000\<rfloor> \<le> 0
            then timeRemaining (timerState h)
            else timeRemaining s - of_int \<lfloor>(now - lu) / 1000\<rfloor>)"
  using assms
  by (simp add: loadStoredTimerState_def Let_def handleTimerCompletion_def saveLastUpdate_def
      saveTimerState_def clearIntervalRef_def startTimerInterval_def split: option.splits)

text \<open>
  Claim C9. Let \<^verbatim>\<open>minutesToSeconds\<close> map durations that are not negative to durations
  that are not negative, and let the hook start with a remaining time and configured
  durations that are not negative (\<open>timerInv\<close>; the hook as created satisfies it,
  \<open>initialHook_inv\<close>). Then after every sequence of interval ticks, resets, starts,
  pauses, restores from storage and changes of the durations, the remaining time is not
  negative. The interval's callback completes the timer when at most one second remains
  and decrements otherwise; a restore of a running timer takes the stored remaining time
  minus the whole seconds elapsed when that is positive, and otherwise leaves the
  remaining time as it is.
\<close>

theorem timeRemaining_nonnegative:
  assumes "\<forall>m\<ge>0. 0 \<le> minutesToSeconds m"
    and "timerInv h"
    and "\<forall>e\<in>set es. eventDurationsOk e"
  shows "0 \<le> timeRemaining (timerState (fold (timerStep minutesToSeconds) es h))
         \<and> timerInv (fold (timerStep minutesToSeconds) es h)
         \<and> (timeRemaining (timerState h) \<le> 1 \<longrightarrow>
              timerState (intervalCallback minutesToSeconds now h)
              = fst (handleTimerCompletion minutesToSeconds (mode (timerState h)) now h))
         \<and> (1 < timeRemaining (timerState h) \<longrightarrow>
              timeRemaining (timerState (intervalCallback minutesToSeconds now h))
              = timeRemaining (timerState h) - 1)
         \<and> (extensionContext h \<and> storedTimerState h = Some s \<and> storedLastUpdate h = Some lu
              \<and> lu \<noteq> 0 \<and> isRunning s \<longrightarrow>
              timeRemaining (timerState (loadStoredTimerState minutesToSeconds now h))
              = (if timeRemaining s - of_int \<lfloor>(now - lu) / 1000\<rfloor> \<le> 0
                 then timeRemaining (timerState h)
                 else timeRemaining s - of_int \<lfloor>(now - lu) / 1000\<rfloor>))"
proof -
  have inv: "timerInv (fold (timerStep minutesToSeconds) es h)"
    by (rule timerSteps_inv[OF assms])
  then have nn: "0 \<le> timeRemaining (timerState (fold (timerStep minutesToSeconds) es h))"
    by (rule timerInv_remaining)
  show ?thesis
    using inv nn loadStoredTimerState_running[of h s lu minutesToSeconds now]
    by (simp add: intervalCallback_timeRemaining)
qed

lemma startTimer_captured_running:
  "isRunning captured \<Longrightarrow> startTimer minutesToSeconds now captured h = h"
  by (simp add: startTimer_def)

lemma pauseTimer_captured_idle: "\<not> isRunning captured \<Longrightarrow> pauseTimer captured h = h"
  by (simp add: pauseTimer_def)

lemma pauseTimer_idle_timerState:
  "\<not> isRunning (timerState h) \<Longrightarrow> timerState (pauseTimer captured h) = timerState h"
  by (simp add: pauseTimer_def Let_def clearIntervalRef_def split: option.splits)

text \<open>
  Claim C8 at a concrete run. On the break screen the user chooses the game:
  \<^verbatim>\<open>selectBreakActivity\<close> schedules a \<^verbatim>\<open>startTimer\<close> that has captured the idle state.
  The game mounts and its mount effect starts the timer. When the timeout fires, the timer
  is running, but the scheduled \<^verbatim>\<open>startTimer\<close> tests the state it captured: it does not
  return, it writes the captured state back (so the chosen activity is lost), saves it
  and replaces the interval. A \<^verbatim>\<open>startTimer\<close> whose captured state is running returns
  the hook unchanged (\<open>startTimer_captured_running\<close>), and so does the \<^verbatim>\<open>startTimer\<close> of
  the latest render; \<^verbatim>\<open>pauseTimer\<close> leaves the timer state of a timer that is not
  running as it is, whatever it captured (\<open>pauseTimer_idle_timerState\<close>).
\<close>

theorem stale_startTimer_restarts_running_timer:
  "snd (selectBreakActivity (Some ''game'') (timerState breakIdle) breakIdle)
     = Some (timerState breakIdle)
   \<and> isRunning (timerState gameRunning)
   \<and> breakActivity (timerState gameRunning) = Some ''game''
   \<and> intervalRef gameRunning = Some 1
   \<and> storedLastUpdate gameRunning = Some 2000
   \<and> breakActivity (timerState (startTimer times60 2100 (timerState breakIdle) gameRunning))
       = None
   \<and> intervalRef (startTimer times60 2100 (timerState breakIdle) gameRunning) = Some 2
   \<and> storedLastUpdate (startTimer times60 2100 (timerState breakIdle) gameRunning) = Some 2100
   \<and> startTimer times60 2100 (timerState breakIdle) gameRunning \<noteq> gameRunning
   \<and> startTimer times60 2100 (timerState gameRunning) gameRunning = gameRunning"
proof -
  have s: "snd (selectBreakActivity (Some ''game'') (timerState breakIdle) breakIdle)
     = Some (timerState breakIdle)"
    by (simp add: selectBreakActivity_def breakIdle_def idleTimer_def)
  have g: "gameRunning =
      hook0\<lparr>timerState := idleTimer\<lparr>breakActivity := Some ''game'', isRunning := True\<rparr>,
            storedTimerState := Some (idleTimer\<lparr>breakActivity := Some ''game'', isRunning := True\<rparr>),
            storedLastUpdate := Some 2000, intervalRef := Some 1, nextIntervalId := 2\<rparr>"
    by (simp add: gameRunning_def gameChosen_def selectBreakActivity_def breakIdle_def
        startTimer_def Let_def idleTimer_def hook0_def initialHook_def saveTimerState_def
        saveLastUpdate_def startTimerInterval_def)
  have t: "startTimer times60 2100 (timerState breakIdle) gameRunning =
      hook0\<lparr>timerState := idleTimer\<lparr>isRunning := True\<rparr>,
            storedTimerState := Some (idleTimer\<lparr>isRunning := True\<rparr>),
            storedLastUpdate := Some 2100, intervalRef := Some 2, nextIntervalId := 3\<rparr>"
    unfolding g
    by (simp add: breakIdle_def startTimer_def Let_def idleTimer_def hook0_def initialHook_def
        saveTimerState_def saveLastUpdate_def startTimerInterval_def)
  have r: "isRunning (timerState gameRunning)"
    unfolding g by (simp add: idleTimer_def)
  show ?thesis
    unfolding t
    using s r startTimer_captured_running[OF r, of times60 2100 gameRunning]
    by (simp add: g idleTimer_def hook0_def initialHook_def)
qed

theorem timeRemaining_nonnegative_witness:
  "timerInv hook0
   \<and> 0 \<le> timeRemaining (timerState (fold (timerStep times60) sampleEvents hook0))
   \<and> timeRemaining (timerState (fold (timerStep times60) sampleEvents hook0)) = 1490"
proof -
  have m: "\<forall>m\<ge>0. 0 \<le> times60 m" by (simp add: times60_def)
  have i: "timerInv hook0"
    by (simp add: hook0_def initialHook_def timerInv_def settingsOk_def pomodoro_def times60_def)
  have e: "\<forall>e\<in>set sampleEvents. eventDurationsOk e" by (simp add: sampleEvents_def)
  have v: "timeRemaining (timerState (fold (timerStep times60) sampleEvents hook0)) = 1490"
    by code_simp
  show ?thesis using timeRemaining_nonnegative[OF m i e] i v by simp
qed

section \<open>Properties of the break duration dialog\<close>

lemma saved_append: "saved (xs @ ys) = saved xs @ saved ys"
  by (induction xs rule: saved.induct) simp_all

lemma isInteger_of_int: "isInteger (of_int k)"
  by (simp add: isInteger_def)

lemma isInteger_add1: "isInteger q \<Longrightarrow> isInteger (q + 1)"
  by (simp add: isInteger_def)

lemma isInteger_sub1: "isInteger q \<Longrightarrow> isInteger (q - 1)"
  by (simp add: isInteger_def)

lemma isInteger_clamp: "isInteger q \<Longrightarrow> isInteger (min (max 1 q) 15)"
  by (simp add: isInteger_def min_def max_def)

lemma isInteger_Ints: "isInteger q \<longleftrightarrow> q \<in> \<int>"
  by (auto simp: isInteger_def Ints_def intro: sym)

lemma saved_dialogStep:
  "saved (out (dialogStep toStr e d)) =
     saved (out d) @ (if e = Save then [min (max 1 (tempDuration d)) 15] else [])"
  by (cases e)
    (simp_all add: handleInputChange_def handleInputBlur_def handleKeyDown_def
      decreaseDuration_def increaseDuration_def handleSave_def handleCancel_def
      handleOpenChange_def propChanged_def Let_def saved_append split: option.splits)

lemma range_step: "rangeInv d \<Longrightarrow> rangeInv (dialogStep toStr e d)"
  by (auto simp: rangeInv_def saved_dialogStep)

lemma range_steps: "rangeInv d \<Longrightarrow> rangeInv (fold (dialogStep toStr) es d)"
  by (induction es arbitrary: d) (simp_all add: range_step)

lemma int_step:
  assumes "intInv d" "propIsInteger e"
  shows "intInv (dialogStep toStr e d)"
proof -
  have t: "isInteger (tempDuration (dialogStep toStr e d))"
    using assms
    by (cases e)
      (auto simp: intInv_def handleInputChange_def handleInputBlur_def handleKeyDown_def
        decreaseDuration_def increaseDuration_def handleSave_def handleCancel_def
        handleOpenChange_def propChanged_def Let_def isInteger_of_int isInteger_add1
        isInteger_sub1 split: option.splits)
  have p: "isInteger (breakDurationProp (dialogStep toStr e d))"
    using assms
    by (cases e)
      (auto simp: intInv_def handleInputChange_def handleInputBlur_def handleKeyDown_def
        decreaseDuration_def increaseDuration_def handleSave_def handleCancel_def
        handleOpenChange_def propChanged_def Let_def split: option.splits)
  have s: "\<forall>v\<in>set (saved (out (dialogStep toStr e d))). isInteger v"
    using assms by (auto simp: intInv_def saved_dialogStep isInteger_clamp)
  show ?thesis using t p s by (simp add: intInv_def)
qed

lemma int_steps:
  "intInv d \<Longrightarrow> \<forall>e\<in>set es. propIsInteger e \<Longrightarrow> intInv (fold (dialogStep toStr) es d)"
  by (induction es arbitrary: d) (simp_all add: int_step)

text \<open>
  Claim C10. Let the prop \<^verbatim>\<open>breakDuration\<close> be a whole number, as the page supplies it
  (its break setting, which this dialog's own saves replace). Then, after every sequence of user interactions (typing, leaving the field, the keys, minus
  and plus, save, cancel, opening and closing) and of changes of the prop by the parent,
  every value that \<^verbatim>\<open>handleSave\<close> has handed to \<^verbatim>\<open>onChangeBreakDuration\<close> is an integer
  between 1 and 15 inclusive, whatever text was entered and whatever \<^verbatim>\<open>toString\<close>
  prints.
\<close>

theorem handleSave_value_integer_1_to_15:
  assumes "isInteger b"
    and "\<forall>e\<in>set es. propIsInteger e"
  shows "\<forall>v\<in>set (saved (out (fold (dialogStep toStr) es (initialDialog toStr b)))).
           v \<in> \<int> \<and> isInteger v \<and> 1 \<le> v \<and> v \<le> 15"
proof -
  have "rangeInv (initialDialog toStr b)"
    by (simp add: rangeInv_def initialDialog_def)
  then have r: "rangeInv (fold (dialogStep toStr) es (initialDialog toStr b))"
    by (rule range_steps)
  from assms(1) have "intInv (initialDialog toStr b)"
    by (simp add: intInv_def initialDialog_def)
  then have i: "intInv (fold (dialogStep toStr) es (initialDialog toStr b))"
    using assms(2) by (rule int_steps)
  show ?thesis
    using r i by (auto simp: rangeInv_def intInv_def isInteger_Ints)
qed

theorem handleSave_value_integer_1_to_15_witness:
  "isInteger 5
   \<and> saved (out (fold (dialogStep wholeToString) session (initialDialog wholeToString 5)))
       = [5, 7, 6, 15]
   \<and> list_all (\<lambda>v. isInteger v \<and> 1 \<le> v \<and> v \<le> 15)
       (saved (out (fold (dialogStep wholeToString) session (initialDialog wholeToString 5))))"
proof -
  have b: "isInteger 5" by (simp add: isInteger_def)
  have e: "\<forall>e\<in>set session. propIsInteger e" by (simp add: session_def isInteger_def)
  have v: "saved (out (fold (dialogStep wholeToString) session (initialDialog wholeToString 5)))
       = [5, 7, 6, 15]"
    by code_simp
  show ?thesis
    using handleSave_value_integer_1_to_15[OF b e, of wholeToString] b v
    by (simp add: isInteger_def)
qed

end
